theory Spec2Isabelle
  imports Complex_Main "HOL-Library.Log_Nat"
begin

section \<open>JavaScript numbers\<close>

text \<open>
  Both source files compute with the Number type of JavaScript: IEEE 754 binary64
  with rounding to nearest, ties to even. A finite number is kept as the rational it
  denotes; the two zeros are one value, as \<^verbatim>\<open>===\<close> has it. The result of an
  arithmetic operation on finite operands is the exact result rounded by \<open>rnd\<close>.
\<close>

datatype number = NaN | PInf | NInf | Fin rat

text \<open>The exponent \<open>e\<close> with \<open>2^e \<le> q < 2^(e+1)\<close>, for a positive \<open>q\<close>.\<close>

definition floorlog2 :: "rat \<Rightarrow> int" where
  "floorlog2 q = (if 1 \<le> q then bitlen \<lfloor>q\<rfloor> - 1 else - bitlen (\<lceil>1 / q\<rceil> - 1))"

definition round_half_even :: "rat \<Rightarrow> int" where
  "round_half_even t =
     (let f = \<lfloor>t\<rfloor>; d = t - of_int f
      in if d < 1 / 2 then f else if 1 / 2 < d then f + 1 else if even f then f else f + 1)"

text \<open>
  The exponent of the unit in the last place around \<open>q\<close>: 53 significant bits, and
  the subnormal range below \<open>2^-1022\<close> shares the spacing \<open>2^-1074\<close>.
\<close>

definition quantum :: "int \<Rightarrow> int" where
  "quantum e = max e (- 1022) - 52"

text \<open>A rounded magnitude \<open>n * 2^k\<close> is a number unless it reaches \<open>2^1024\<close>.\<close>

definition pack :: "bool \<Rightarrow> int \<Rightarrow> int \<Rightarrow> number" where
  "pack negative n k =
     (let r = of_int n * 2 powi k
      in if 2 ^ 1024 \<le> r then (if negative then NInf else PInf)
         else Fin (if negative then - r else r))"

definition rnd :: "rat \<Rightarrow> number" where
  "rnd q =
     (if q = 0 then Fin 0
      else let k = quantum (floorlog2 \<bar>q\<bar>)
           in pack (q < 0) (round_half_even (\<bar>q\<bar> / 2 powi k)) k)"

text \<open>The finite numbers a program can hold are the fixed points of \<open>rnd\<close>.\<close>

definition is_double :: "rat \<Rightarrow> bool" where
  "is_double q = (rnd q = Fin q)"

fun fneg :: "number \<Rightarrow> number" where
  "fneg NaN = NaN"
| "fneg PInf = NInf"
| "fneg NInf = PInf"
| "fneg (Fin a) = Fin (- a)"

fun fadd :: "number \<Rightarrow> number \<Rightarrow> number" where
  "fadd (Fin a) (Fin b) = rnd (a + b)"
| "fadd NaN _ = NaN"
| "fadd _ NaN = NaN"
| "fadd (Fin a) n = n"
| "fadd m (Fin b) = m"
| "fadd m n = (if m = n then m else NaN)"

definition fsub :: "number \<Rightarrow> number \<Rightarrow> number" where
  "fsub m n = fadd m (fneg n)"

fun fmul :: "number \<Rightarrow> number \<Rightarrow> number" where
  "fmul (Fin a) (Fin b) = rnd (a * b)"
| "fmul NaN _ = NaN"
| "fmul _ NaN = NaN"
| "fmul (Fin a) n = (if a = 0 then NaN else if (0 < a) = (n = PInf) then PInf else NInf)"
| "fmul m (Fin b) = (if b = 0 then NaN else if (0 < b) = (m = PInf) then PInf else NInf)"
| "fmul m n = (if m = n then PInf else NInf)"

text \<open>
  Division. A zero divisor is taken as \<open>+0\<close>: every divisor in the two files is a
  result of \<^verbatim>\<open>Math.hypot\<close> or a board dimension, never \<open>-0\<close>.
\<close>

fun fdiv :: "number \<Rightarrow> number \<Rightarrow> number" where
  "fdiv (Fin a) (Fin b) =
     (if b = 0 then (if a = 0 then NaN else if 0 < a then PInf else NInf)
      else rnd (a / b))"
| "fdiv NaN _ = NaN"
| "fdiv _ NaN = NaN"
| "fdiv (Fin a) n = Fin 0"
| "fdiv m (Fin b) = (if (0 \<le> b) = (m = PInf) then PInf else NInf)"
| "fdiv m n = NaN"

text \<open>\<^verbatim>\<open>Math.min\<close> of two numbers.\<close>

fun fmin :: "number \<Rightarrow> number \<Rightarrow> number" where
  "fmin (Fin a) (Fin b) = Fin (min a b)"
| "fmin NaN _ = NaN"
| "fmin _ NaN = NaN"
| "fmin NInf _ = NInf"
| "fmin _ NInf = NInf"
| "fmin PInf n = n"
| "fmin m PInf = m"

text \<open>The integer square root, by two bits at a time.\<close>

function isqrt :: "int \<Rightarrow> int" where
  "isqrt n =
     (if n < 4 then (if n \<le> 0 then 0 else 1)
      else let r = 2 * isqrt (n div 4) in if (r + 1) * (r + 1) \<le> n then r + 1 else r)"
  by pat_completeness auto
termination
  by (relation "measure nat") auto

declare isqrt.simps [simp del]

text \<open>
  The square root of a positive rational, rounded to nearest, ties to even: the
  candidate \<open>f\<close> is the integer part of the root in units of the last place, and the
  argument is compared with the square of the midpoint \<open>f + 1/2\<close>.
\<close>

definition sqrt_rnd :: "rat \<Rightarrow> number" where
  "sqrt_rnd s =
     (let k = quantum (floorlog2 s div 2);
          t = s / 4 powi k;
          f = isqrt \<lfloor>t\<rfloor>;
          m = of_int (f * f + f) + 1 / 4
      in pack False (if t < m then f else if m < t then f + 1
                     else if even f then f else f + 1) k)"

text \<open>
  \<^verbatim>\<open>Math.hypot(a, b)\<close>. ECMAScript fixes the result for infinite, NaN and all-zero
  arguments and asks for an approximation of the root of the sum of squares
  otherwise; the model takes the correctly rounded root there.
\<close>

fun hypot :: "number \<Rightarrow> number \<Rightarrow> number" where
  "hypot (Fin a) (Fin b) = (if a = 0 \<and> b = 0 then Fin 0 else sqrt_rnd (a * a + b * b))"
| "hypot PInf _ = PInf"
| "hypot NInf _ = PInf"
| "hypot _ PInf = PInf"
| "hypot _ NInf = PInf"
| "hypot m n = NaN"

section \<open>vector.js\<close>

text \<open>
  The class \<^verbatim>\<open>Vector\<close> and its arithmetic methods. \<^verbatim>\<open>rotate\<close> and \<^verbatim>\<open>angleBetween\<close> go
  through \<^verbatim>\<open>toRadians\<close> and \<^verbatim>\<open>toDegrees\<close> of \<^verbatim>\<open>utils\<close> and the trigonometric functions
  of \<^verbatim>\<open>Math\<close>; they are left out.
\<close>

datatype vector = Vector (x: number) (y: number)

definition scaleBy :: "vector \<Rightarrow> number \<Rightarrow> vector" where
  "scaleBy this number = Vector (fmul (x this) number) (fmul (y this) number)"

definition length' :: "vector \<Rightarrow> number" where
  "length' this = hypot (x this) (y this)"

definition add :: "vector \<Rightarrow> vector \<Rightarrow> vector" where
  "add this v = Vector (fadd (x this) (x v)) (fadd (y this) (y v))"

definition normalize' :: "vector \<Rightarrow> vector" where
  "normalize' this = scaleBy this (fdiv (Fin 1) (length' this))"

definition subtract :: "vector \<Rightarrow> vector \<Rightarrow> vector" where
  "subtract this v = Vector (fsub (x this) (x v)) (fsub (y this) (y v))"

definition dotProduct :: "vector \<Rightarrow> vector \<Rightarrow> number" where
  "dotProduct this v = fadd (fmul (x this) (x v)) (fmul (y this) (y v))"

definition projectOn :: "vector \<Rightarrow> vector \<Rightarrow> vector" where
  "projectOn this other =
     (let amt = fdiv (dotProduct this other) (length' other)
      in Vector (fmul amt (x other)) (fmul amt (y other)))"

definition reflect :: "vector \<Rightarrow> vector \<Rightarrow> vector" where
  "reflect this normal = subtract this (scaleBy (projectOn this normal) (Fin 2))"

definition crossProduct :: "vector \<Rightarrow> vector \<Rightarrow> number" where
  "crossProduct this v = fsub (fmul (x this) (y v)) (fmul (x v) (y this))"

section \<open>The game core, as scene.js sees it\<close>

text \<open>
  Modelled from the spec: \<^verbatim>\<open>game/core.js\<close> and \<^verbatim>\<open>game/levels.js\<close> are not among the
  sources. The records below carry the fields the spec's data model lists and scene.js
  reads (\<^verbatim>\<open>size\<close>, \<^verbatim>\<open>blocks\<close>, \<^verbatim>\<open>paddle\<close>, \<^verbatim>\<open>ball\<close>, \<^verbatim>\<open>lives\<close>); the two imported
  functions and the level table are parameters, collected in the record \<open>core\<close>.
  \<^verbatim>\<open>LEVELS[i]\<close> is \<open>at_index\<close>: \<open>None\<close> stands for \<^verbatim>\<open>undefined\<close>. The movement
  intent is \<^verbatim>\<open>MOVEMENT.LEFT\<close>, \<^verbatim>\<open>MOVEMENT.RIGHT\<close> or, in scene.js, \<^verbatim>\<open>undefined\<close>.
\<close>

datatype movement = LEFT | RIGHT

record rect_size =
  width :: number
  height :: number

record paddle = rect_size +
  position :: vector

record block = paddle +
  density :: int

record ball =
  center :: vector
  radius :: number
  velocity :: vector

record game =
  size' :: rect_size
  blocks :: "block list"
  paddle :: paddle
  ball :: ball
  lives :: int

record 'l core =
  LEVELS :: "'l list"
  getNewGameState :: "game \<Rightarrow> movement option \<Rightarrow> int \<Rightarrow> game"
  getGameStateFromLevel :: "'l option \<Rightarrow> game"

definition at_index :: "'a list \<Rightarrow> int \<Rightarrow> 'a option" where
  "at_index xs i = (if 0 \<le> i \<and> i < int (length xs) then Some (xs ! nat i) else None)"

section \<open>scene.js\<close>

text \<open>
  The reducer reads the clock (\<^verbatim>\<open>Date.now()\<close>, in milliseconds) and writes
  \<^verbatim>\<open>localStorage\<close>; both are the record \<open>world\<close>, passed in and returned. Times and
  level indices are integers, which binary64 holds exactly below \<open>2^53\<close>.
\<close>

record world =
  now :: int
  localStorage :: "string \<rightharpoonup> string"

definition MOVEMENT_KEYS_LEFT :: "int list" where
  "MOVEMENT_KEYS_LEFT = [65, 37]"

definition MOVEMENT_KEYS_RIGHT :: "int list" where
  "MOVEMENT_KEYS_RIGHT = [68, 39]"

definition STOP_KEY :: int where
  "STOP_KEY = 32"

record projectors =
  projectDistance :: "number \<Rightarrow> number"
  projectVector :: "vector \<Rightarrow> vector"

text \<open>
  A container size is what the component was given and what CONTAINER_SIZE_CHANGE
  receives: an object with \<^verbatim>\<open>width\<close> and \<^verbatim>\<open>height\<close>, or, when a key code arrives
  under that type, a number. \<^verbatim>\<open>undefined\<close> is never stored: \<^verbatim>\<open>getProjectors\<close> throws on
  it before the state is built, in \<^verbatim>\<open>getInitialState\<close> and in the handler alike. The
  properties \<^verbatim>\<open>width\<close> and \<^verbatim>\<open>height\<close> of a number are \<^verbatim>\<open>undefined\<close>, which the
  division converts to \<open>NaN\<close>.
\<close>

datatype container = Size rect_size | KeyCode int

definition width_of :: "container \<Rightarrow> number" where
  "width_of c = (case c of Size r \<Rightarrow> width r | KeyCode k \<Rightarrow> NaN)"

definition height_of :: "container \<Rightarrow> number" where
  "height_of c = (case c of Size r \<Rightarrow> height r | KeyCode k \<Rightarrow> NaN)"

definition getProjectors :: "container \<Rightarrow> rect_size \<Rightarrow> projectors" where
  "getProjectors containerSize gameSize =
     (let widthRatio = fdiv (width_of containerSize) (width gameSize);
          heightRatio = fdiv (height_of containerSize) (height gameSize);
          unitOnScreen = fmin widthRatio heightRatio
      in \<lparr>projectDistance = (\<lambda>distance. fmul distance unitOnScreen),
          projectVector = (\<lambda>vector. scaleBy vector unitOnScreen)\<rparr>)"

record state = projectors +
  level :: int
  game :: game
  containerSize :: container
  time :: int
  stopTime :: "int option"
  movement :: "movement option"

text \<open>The spread \<^verbatim>\<open>...getProjectors(..)\<close> into a state.\<close>

definition spread :: "state \<Rightarrow> projectors \<Rightarrow> state" where
  "spread s p = s\<lparr>projectDistance := projectDistance p, projectVector := projectVector p\<rparr>"

text \<open>
  \<^verbatim>\<open>if (state.stopTime)\<close>: \<^verbatim>\<open>undefined\<close> and \<open>0\<close> are falsy, every other time is
  truthy.
\<close>

definition truthy :: "int option \<Rightarrow> bool" where
  "truthy t = (case t of None \<Rightarrow> False | Some n \<Rightarrow> n \<noteq> 0)"

text \<open>The decimal string \<^verbatim>\<open>setItem\<close> stores for an integer.\<close>

function digits :: "nat \<Rightarrow> string" where
  "digits n =
     (if n < 10 then [''0123456789'' ! n]
      else digits (n div 10) @ [''0123456789'' ! (n mod 10)])"
  by pat_completeness auto
termination
  by (relation "measure (\<lambda>n. n)") auto

declare digits.simps [simp del]

definition ToString :: "int \<Rightarrow> string" where
  "ToString i = (if i < 0 then CHR ''-'' # digits (nat (- i)) else digits (nat i))"

definition CONTAINER_SIZE_CHANGE :: string where
  "CONTAINER_SIZE_CHANGE = ''CONTAINER_SIZE_CHANGE''"

definition KEY_DOWN :: string where
  "KEY_DOWN = ''KEY_DOWN''"

definition KEY_UP :: string where
  "KEY_UP = ''KEY_UP''"

definition TICK :: string where
  "TICK = ''TICK''"

text \<open>
  An action is \<^verbatim>\<open>{type, payload}\<close>. The component dispatches a container size, a key
  code or nothing as payload. A handler returns the next state, or the exception it
  throws, and the world it leaves.
\<close>

datatype payload = Undefined | Key int | ContainerSize rect_size

datatype action = Action (type': string) (payload: payload)

datatype error = TypeError

type_synonym 'l handler = "'l core \<Rightarrow> world \<Rightarrow> state \<Rightarrow> payload \<Rightarrow> (error + state) \<times> world"

text \<open>
  Reading \<^verbatim>\<open>containerSize.width\<close> of \<^verbatim>\<open>undefined\<close> throws. Any other payload is stored
  as the container size, with the projectors computed from it.
\<close>

definition HANDLER_CONTAINER_SIZE_CHANGE :: "'l handler" where
  "HANDLER_CONTAINER_SIZE_CHANGE core w s p =
     (let changed = (\<lambda>containerSize'.
            (Inr (spread (s\<lparr>containerSize := containerSize'\<rparr>)
                    (getProjectors containerSize' (size' (game s)))), w))
      in case p of
           Undefined \<Rightarrow> (Inl TypeError, w)
         | Key key \<Rightarrow> changed (KeyCode key)
         | ContainerSize rect \<Rightarrow> changed (Size rect))"

definition HANDLER_KEY_DOWN :: "'l handler" where
  "HANDLER_KEY_DOWN core w s p =
     (case p of
        Key key \<Rightarrow>
          if key \<in> set MOVEMENT_KEYS_LEFT then (Inr (s\<lparr>movement := Some LEFT\<rparr>), w)
          else if key \<in> set MOVEMENT_KEYS_RIGHT then (Inr (s\<lparr>movement := Some RIGHT\<rparr>), w)
          else (Inr s, w)
      | _ \<Rightarrow> (Inr s, w))"

definition HANDLER_KEY_UP :: "'l handler" where
  "HANDLER_KEY_UP core w s p =
     (let newState = s\<lparr>movement := None\<rparr>
      in if p = Key STOP_KEY then
           if truthy (stopTime s) then
             (Inr (newState\<lparr>stopTime := None,
                            time := time s + now w - the (stopTime s)\<rparr>), w)
           else (Inr (newState\<lparr>stopTime := Some (now w)\<rparr>), w)
         else (Inr newState, w))"

definition HANDLER_TICK :: "'l handler" where
  "HANDLER_TICK core w s p =
     (if truthy (stopTime s) then (Inr s, w)
      else
        let time' = now w;
            newGame = getNewGameState core (game s) (movement s) (time' - time s);
            newState = s\<lparr>time := time'\<rparr>
        in if lives newGame < 1 then
             (Inr (newState\<lparr>game := getGameStateFromLevel core (at_index (LEVELS core) (level s))\<rparr>), w)
           else if length (blocks newGame) < 1 then
             let level' = (if level s = int (length (LEVELS core)) then level s else level s + 1);
                 w' = w\<lparr>localStorage := (localStorage w)(''level'' \<mapsto> ToString level')\<rparr>;
                 game' = getGameStateFromLevel core (at_index (LEVELS core) (level s))
             in (Inr (spread (newState\<lparr>level := level', game := game'\<rparr>)
                        (getProjectors (containerSize s) (size' game'))), w')
           else (Inr (newState\<lparr>game := newGame\<rparr>), w))"

text \<open>
  \<^verbatim>\<open>HANDLER\<close> is an object literal, so \<^verbatim>\<open>HANDLER[type]\<close> finds the four handlers and,
  through the prototype chain, the members of \<^verbatim>\<open>Object.prototype\<close>. These are the
  twelve names ECMAScript defines there.
\<close>

definition Object_prototype :: "string list" where
  "Object_prototype =
     [''constructor'', ''hasOwnProperty'', ''isPrototypeOf'', ''propertyIsEnumerable'',
      ''toLocaleString'', ''toString'', ''valueOf'', ''__proto__'',
      ''__defineGetter__'', ''__defineSetter__'', ''__lookupGetter__'', ''__lookupSetter__'']"

datatype 'l member = Own "'l handler" | Inherited string

definition HANDLER :: "string \<rightharpoonup> 'l member" where
  "HANDLER =
     (\<lambda>name. if name \<in> set Object_prototype then Some (Inherited name) else None)
       (CONTAINER_SIZE_CHANGE \<mapsto> Own HANDLER_CONTAINER_SIZE_CHANGE,
        KEY_DOWN \<mapsto> Own HANDLER_KEY_DOWN,
        KEY_UP \<mapsto> Own HANDLER_KEY_UP,
        TICK \<mapsto> Own HANDLER_TICK)"

text \<open>
  The reducer returns a state, or does something else: it throws, or it returns a
  value that is no state. The second kind of outcome is the left summand.
\<close>

datatype outcome = Thrown error | Returned string

text \<open>
  The call \<^verbatim>\<open>handler(state, payload)\<close> of an inherited member. The file is a module,
  so \<^verbatim>\<open>this\<close> is \<^verbatim>\<open>undefined\<close> in the call. \<^verbatim>\<open>constructor\<close> is \<^verbatim>\<open>Object\<close>, and
  \<^verbatim>\<open>Object(state)\<close> is the object it was given. \<^verbatim>\<open>toString\<close> returns the tag of
  \<^verbatim>\<open>undefined\<close>. Every other method converts \<^verbatim>\<open>this\<close> to an object first and throws a
  TypeError; \<^verbatim>\<open>__proto__\<close> is the prototype object, which is no function, and calling
  it throws a TypeError too.
\<close>

definition call_inherited :: "string \<Rightarrow> state \<Rightarrow> outcome + state" where
  "call_inherited name s =
     (if name = ''constructor'' then Inr s
      else if name = ''toString'' then Inl (Returned ''[object Undefined]'')
      else Inl (Thrown TypeError))"

definition reducer :: "'l core \<Rightarrow> world \<Rightarrow> state \<Rightarrow> action \<Rightarrow> (outcome + state) \<times> world" where
  "reducer core w s a =
     (case HANDLER (type' a) of
        None \<Rightarrow> (Inr s, w)
      | Some (Own handler) \<Rightarrow>
          (case handler core w s (payload a) of
             (Inl e, w') \<Rightarrow> (Inl (Thrown e), w')
           | (Inr s', w') \<Rightarrow> (Inr s', w'))
      | Some (Inherited name) \<Rightarrow> (call_inherited name s, w))"

section \<open>A small instance\<close>

text \<open>
  Two levels, told apart by their number of blocks, a loader for them, and two
  simulation steps: one that clears the board and one that loses the last life.
\<close>

definition demo_level :: "nat \<Rightarrow> game" where
  "demo_level n =
     \<lparr>size' = \<lparr>width = Fin 300, height = Fin 200\<rparr>,
      blocks = replicate n
        \<lparr>width = Fin 20, height = Fin 10, position = Vector (Fin 0) (Fin 0), density = 1\<rparr>,
      paddle = \<lparr>width = Fin 40, height = Fin 5, position = Vector (Fin 130) (Fin 190)\<rparr>,
      ball = \<lparr>center = Vector (Fin 150) (Fin 180), radius = Fin 5,
              velocity = Vector (Fin 0) (Fin (- 1))\<rparr>,
      lives = 3\<rparr>"

definition demo_loader :: "nat option \<Rightarrow> game" where
  "demo_loader d = (case d of None \<Rightarrow> demo_level 0 | Some n \<Rightarrow> demo_level n)"

definition clearing_step :: "game \<Rightarrow> movement option \<Rightarrow> int \<Rightarrow> game" where
  "clearing_step g m dt = g\<lparr>blocks := []\<rparr>"

definition losing_step :: "game \<Rightarrow> movement option \<Rightarrow> int \<Rightarrow> game" where
  "losing_step g m dt = g\<lparr>lives := 0\<rparr>"

definition demo_core :: "(game \<Rightarrow> movement option \<Rightarrow> int \<Rightarrow> game) \<Rightarrow> nat core" where
  "demo_core step =
     \<lparr>LEVELS = [1, 2], getNewGameState = step, getGameStateFromLevel = demo_loader\<rparr>"

definition demo_state :: state where
  "demo_state =
     \<lparr>projectDistance = (\<lambda>distance. fmul distance (Fin 2)),
      projectVector = (\<lambda>vector. scaleBy vector (Fin 2)),
      level = 0,
      game = demo_level 1,
      containerSize = Size \<lparr>width = Fin 600, height = Fin 400\<rparr>,
      time = 1000,
      stopTime = None,
      movement = None\<rparr>"

definition demo_world :: world where
  "demo_world = \<lparr>now = 1016, localStorage = Map.empty\<rparr>"

section \<open>Rounding\<close>

subsection \<open>The binade of a rational\<close>

lemma floorlog2_lower:
  assumes "0 < q"
  shows "2 powi (floorlog2 q) \<le> q"
proof (cases "1 \<le> q")
  case True
  define m where "m = \<lfloor>q\<rfloor>"
  have m: "0 < m" using True by (simp add: m_def)
  have e: "0 \<le> bitlen m - 1"
    using m bitlen_eq_zero_iff [of m] bitlen_nonneg [of m] by linarith
  have "(2::int) ^ nat (bitlen m - 1) \<le> m"
    using bitlen_bounds [OF m] by simp
  then have "(2::rat) ^ nat (bitlen m - 1) \<le> of_int m" by simp
  also have "\<dots> \<le> q" by (simp add: m_def)
  finally show ?thesis
    using True e by (simp add: floorlog2_def m_def power_int_nonneg_exp)
next
  case False
  define c where "c = \<lceil>1 / q\<rceil>"
  have r: "1 < 1 / q" using assms False by simp
  have c: "0 < c - 1" using r by (simp add: c_def less_ceiling_iff)
  define b where "b = bitlen (c - 1)"
  have b: "0 \<le> b" by (simp add: b_def bitlen_nonneg)
  have "c - 1 < 2 ^ nat b"
    using bitlen_bounds [OF c] by (simp add: b_def)
  then have "c \<le> 2 ^ nat b" by simp
  then have "(of_int c :: rat) \<le> 2 ^ nat b" by simp
  moreover have "1 / q \<le> of_int c" by (simp add: c_def)
  ultimately have "1 / q \<le> 2 ^ nat b" by linarith
  then have "1 / 2 ^ nat b \<le> q"
    using assms by (simp add: field_simps)
  then show ?thesis
    using False b by (simp add: floorlog2_def c_def b_def power_int_minus_divide power_int_nonneg_exp)
qed

lemma floorlog2_upper:
  assumes "0 < q"
  shows "q < 2 powi (floorlog2 q + 1)"
proof (cases "1 \<le> q")
  case True
  define m where "m = \<lfloor>q\<rfloor>"
  have m: "0 < m" using True by (simp add: m_def)
  have e: "0 \<le> bitlen m" by (rule bitlen_nonneg)
  have "m < 2 ^ nat (bitlen m)"
    using bitlen_bounds [OF m] by simp
  then have "m + 1 \<le> 2 ^ nat (bitlen m)" by simp
  then have "(of_int (m + 1) :: rat) \<le> 2 ^ nat (bitlen m)"
    by (simp only: of_int_le_numeral_power_cancel_iff)
  moreover have "q < of_int (m + 1)"
    using floor_correct [of q] by (simp add: m_def)
  ultimately have "q < 2 ^ nat (bitlen m)" by linarith
  then show ?thesis
    using True e by (simp add: floorlog2_def m_def power_int_nonneg_exp)
next
  case False
  define c where "c = \<lceil>1 / q\<rceil>"
  have r: "1 < 1 / q" using assms False by simp
  have c: "0 < c - 1" using r by (simp add: c_def less_ceiling_iff)
  define b where "b = bitlen (c - 1)"
  have b: "1 \<le> b"
    using c bitlen_eq_zero_iff [of "c - 1"] bitlen_nonneg [of "c - 1"] unfolding b_def by linarith
  have "2 ^ nat (b - 1) \<le> c - 1"
    using bitlen_bounds [OF c] by (simp add: b_def)
  then have "(2::rat) ^ nat (b - 1) \<le> of_int (c - 1)"
    by (simp only: numeral_power_le_of_int_cancel_iff)
  moreover have "of_int (c - 1) < 1 / q"
    using ceiling_correct [of "1 / q"] by (simp add: c_def)
  ultimately have "2 ^ nat (b - 1) < 1 / q" by linarith
  then have "q < 1 / 2 ^ nat (b - 1)"
    using assms by (simp add: field_simps)
  moreover have "(2::rat) powi (- b + 1) = 1 / 2 ^ nat (b - 1)"
    using b power_int_minus_divide [of "2::rat" "b - 1"] by (simp add: power_int_nonneg_exp)
  ultimately show ?thesis
    using False by (simp add: floorlog2_def c_def b_def)
qed

lemma floorlog2_unique:
  assumes "2 powi e \<le> q" and "q < 2 powi (e + 1)"
  shows "floorlog2 q = e"
proof -
  have pos: "0 < q"
    using assms(1) zero_less_power_int [of "2::rat" e] by linarith
  have "2 powi (floorlog2 q) < (2::rat) powi (e + 1)"
    using floorlog2_lower [OF pos] assms(2) by linarith
  then have "floorlog2 q < e + 1"
    using power_int_increasing [of "e + 1" "floorlog2 q" "2::rat"] by (cases "floorlog2 q < e + 1") auto
  moreover have "2 powi e < (2::rat) powi (floorlog2 q + 1)"
    using floorlog2_upper [OF pos] assms(1) by linarith
  then have "e < floorlog2 q + 1"
    using power_int_increasing [of "floorlog2 q + 1" e "2::rat"] by (cases "e < floorlog2 q + 1") auto
  ultimately show ?thesis by linarith
qed

subsection \<open>Rounding to a number\<close>

lemma round_half_even_of_int: "round_half_even (of_int n) = n"
  by (simp add: round_half_even_def)

lemma round_half_even_near:
  assumes "of_int n - 1 / 2 < t" and "t < of_int n + 1 / 2"
  shows "round_half_even t = n"
proof (cases "of_int n \<le> t")
  case True
  then have "\<lfloor>t\<rfloor> = n" using assms(2) by (intro floor_unique) auto
  then show ?thesis using assms(2) by (simp add: round_half_even_def)
next
  case False
  then have "\<lfloor>t\<rfloor> = n - 1" using assms(1) by (intro floor_unique) auto
  then show ?thesis using assms(1) by (simp add: round_half_even_def)
qed

lemma rnd_zero: "rnd 0 = Fin 0"
  by (simp add: rnd_def)

lemma rnd_eval:
  assumes "2 powi e \<le> \<bar>q\<bar>" and "\<bar>q\<bar> < 2 powi (e + 1)"
  shows "rnd q = pack (q < 0) (round_half_even (\<bar>q\<bar> / 2 powi quantum e)) (quantum e)"
proof -
  have "0 < (2::rat) powi e" by simp
  then have "0 < \<bar>q\<bar>" using assms(1) by linarith
  then have "q \<noteq> 0" by simp
  moreover have "floorlog2 \<bar>q\<bar> = e"
    using assms by (rule floorlog2_unique)
  ultimately show ?thesis by (simp add: rnd_def Let_def)
qed

lemma fneg_pack: "fneg (pack b n k) = pack (\<not> b) n k"
  by (simp add: pack_def Let_def)

lemma rnd_minus: "rnd (- q) = fneg (rnd q)"
proof (cases "q = 0")
  case True
  then show ?thesis by (simp add: rnd_def)
next
  case False
  then have "(0 < q) = (\<not> q < 0)" by auto
  with False show ?thesis by (simp add: rnd_def Let_def fneg_pack)
qed

lemma is_double_minus: "is_double q \<Longrightarrow> is_double (- q)"
  by (simp add: is_double_def rnd_minus)

lemma is_double_zero: "is_double 0"
  by (simp add: is_double_def rnd_zero)

lemma is_double_dyadic_pos:
  assumes n: "0 < n" "n < 2 ^ 53" and k: "- 1074 \<le> k" "k \<le> 971"
  shows "rnd (of_int n * 2 powi k) = Fin (of_int n * 2 powi k)"
proof -
  define q :: rat where "q = of_int n * 2 powi k"
  have qpos: "0 < q" using n by (simp add: q_def)
  define e where "e = floorlog2 q"
  have "2 powi e \<le> q" unfolding e_def using qpos by (rule floorlog2_lower)
  also have "q < 2 ^ 53 * 2 powi k"
    unfolding q_def using n(2) by (intro mult_strict_right_mono) auto
  also have "\<dots> = 2 powi (k + 53)" by (simp add: power_int_add)
  finally have "e < k + 53"
    using power_int_increasing [of "k + 53" e "2::rat"] by (cases "e < k + 53") auto
  then have le: "quantum e \<le> k" using k by (simp add: quantum_def)
  define j where "j = nat (k - quantum e)"
  have "(2::rat) powi k = 2 powi (quantum e) * 2 powi (k - quantum e)"
    by (simp flip: power_int_add)
  also have "(2::rat) powi (k - quantum e) = 2 ^ j"
    using le by (simp add: j_def power_int_nonneg_exp)
  finally have split: "(2::rat) powi k = 2 powi (quantum e) * 2 ^ j" .
  have "q / 2 powi (quantum e) = of_int n * 2 ^ j"
    by (simp add: q_def split)
  also have "\<dots> = of_int (n * 2 ^ j)" by simp
  finally have t: "q / 2 powi (quantum e) = of_int (n * 2 ^ j)" .
  have recompose: "of_int (n * 2 ^ j) * 2 powi (quantum e) = q"
    by (simp add: q_def split)
  have "q < 2 ^ 53 * 2 powi k" by fact
  also have "\<dots> \<le> 2 ^ 53 * 2 powi 971"
    using k by (intro mult_left_mono power_int_increasing) auto
  also have "\<dots> = 2 ^ 1024" by simp
  finally have small: "q < 2 ^ 1024" .
  have "rnd q = pack False (round_half_even (q / 2 powi quantum e)) (quantum e)"
    using qpos by (simp add: rnd_def e_def Let_def)
  also have "\<dots> = Fin q"
    using small by (simp only: t round_half_even_of_int pack_def Let_def recompose) simp
  finally show ?thesis by (simp add: q_def)
qed

lemma is_double_dyadic:
  assumes "\<bar>n\<bar> < 2 ^ 53" and "- 1074 \<le> k" and "k \<le> 971"
  shows "is_double (of_int n * 2 powi k)"
proof -
  consider "n = 0" | "0 < n" | "n < 0" by linarith
  then show ?thesis
  proof cases
    case 1
    then show ?thesis by (simp add: is_double_zero)
  next
    case 2
    then show ?thesis
      using assms is_double_dyadic_pos [of n k] by (simp add: is_double_def)
  next
    case 3
    then have "is_double (of_int (- n) * 2 powi k)"
      using assms is_double_dyadic_pos [of "- n" k] by (simp add: is_double_def)
    then have "is_double (- (of_int (- n) * 2 powi k))" by (rule is_double_minus)
    then show ?thesis by simp
  qed
qed

lemma is_double_of_int:
  assumes "\<bar>n\<bar> < 2 ^ 53"
  shows "is_double (of_int n)"
  using is_double_dyadic [OF assms, of 0] by simp

lemma rnd_cert:
  assumes "2 powi e \<le> q" and "q < 2 powi (e + 1)" and "k = quantum e"
    and "of_int n - 1 / 2 < q / 2 powi k" and "q / 2 powi k < of_int n + 1 / 2"
    and "r = of_int n * 2 powi k" and "r < 2 ^ 1024"
  shows "rnd q = Fin r"
proof -
  have "0 < (2::rat) powi e" by simp
  then have pos: "0 < q" using assms(1) by linarith
  then have "rnd q = pack False (round_half_even (q / 2 powi k)) k"
    using rnd_eval [of e q] assms(1,2,3) by simp
  also have "round_half_even (q / 2 powi k) = n"
    using assms(4,5) by (rule round_half_even_near)
  finally show ?thesis
    using assms(6,7) by (simp add: pack_def)
qed

lemma literal_0_1: "rnd (1 / 10) = Fin (7205759403792794 / 2 ^ 56)"
  by (rule rnd_cert [where e = "- 4" and n = 7205759403792794 and k = "- 56"])
    (simp_all add: quantum_def)

lemma literal_0_2: "rnd (2 / 10) = Fin (7205759403792794 / 2 ^ 55)"
  by (rule rnd_cert [where e = "- 3" and n = 7205759403792794 and k = "- 55"])
    (simp_all add: quantum_def)

lemma literal_0_3: "rnd (3 / 10) = Fin (5404319552844595 / 2 ^ 54)"
  by (rule rnd_cert [where e = "- 2" and n = 5404319552844595 and k = "- 54"])
    (simp_all add: quantum_def)

lemma product_0_1_0_2:
  "rnd (7205759403792794 / 2 ^ 56 * (7205759403792794 / 2 ^ 55)) = Fin (5764607523034236 / 2 ^ 58)"
  by (rule rnd_cert [where e = "- 6" and n = 5764607523034236 and k = "- 58"])
    (simp_all add: quantum_def)

lemma product_0_2_0_3:
  "rnd (7205759403792794 / 2 ^ 55 * (5404319552844595 / 2 ^ 54)) = Fin (8646911284551352 / 2 ^ 57)"
  by (rule rnd_cert [where e = "- 5" and n = 8646911284551352 and k = "- 57"])
    (simp_all add: quantum_def)

lemma product_left:
  "rnd (5764607523034236 / 2 ^ 58 * (5404319552844595 / 2 ^ 54)) = Fin (6917529027641083 / 2 ^ 60)"
  by (rule rnd_cert [where e = "- 8" and n = 6917529027641083 and k = "- 60"])
    (simp_all add: quantum_def)

lemma product_right:
  "rnd (7205759403792794 / 2 ^ 56 * (8646911284551352 / 2 ^ 57)) = Fin (6917529027641082 / 2 ^ 60)"
  by (rule rnd_cert [where e = "- 8" and n = 6917529027641082 and k = "- 60"])
    (simp_all add: quantum_def)

subsection \<open>Square roots\<close>

lemma isqrt_bounds:
  "0 \<le> n \<Longrightarrow> 0 \<le> isqrt n \<and> isqrt n * isqrt n \<le> n \<and> n < (isqrt n + 1) * (isqrt n + 1)"
proof (induction n rule: isqrt.induct)
  case (1 n)
  show ?case
  proof (cases "n < 4")
    case True
    with "1.prems" show ?thesis
      by (simp add: isqrt.simps [of n])
  next
    case False
    define r where "r = isqrt (n div 4)"
    have ih: "0 \<le> r \<and> r * r \<le> n div 4 \<and> n div 4 < (r + 1) * (r + 1)"
      unfolding r_def using False by (intro "1.IH") auto
    have lo: "4 * (r * r) \<le> n" using ih by linarith
    have "n div 4 + 1 \<le> (r + 1) * (r + 1)" using ih by linarith
    then have hi: "n < 4 * (r * r) + 8 * r + 4" by (simp add: algebra_simps)
    show ?thesis
    proof (cases "(2 * r + 1) * (2 * r + 1) \<le> n")
      case True
      then have "isqrt n = 2 * r + 1"
        using False by (simp add: isqrt.simps [of n] r_def Let_def)
      with True hi ih show ?thesis by (simp add: algebra_simps)
    next
      case nle: False
      then have "isqrt n = 2 * r"
        using False by (simp add: isqrt.simps [of n] r_def Let_def)
      with nle lo ih show ?thesis by (simp add: algebra_simps)
    qed
  qed
qed

lemma isqrt_unique:
  assumes "0 \<le> f" and "f * f \<le> n" and "n < (f + 1) * (f + 1)"
  shows "isqrt n = f"
proof -
  have "0 \<le> f * f" by simp
  then have n: "0 \<le> n" using assms(2) by linarith
  define g where "g = isqrt n"
  have g: "0 \<le> g" "g * g \<le> n" "n < (g + 1) * (g + 1)"
    using isqrt_bounds [OF n] by (simp_all add: g_def)
  have "\<not> g < f"
  proof
    assume "g < f"
    then have "(g + 1) * (g + 1) \<le> f * f"
      using g(1) by (intro mult_mono) auto
    with assms(2) g(3) show False by linarith
  qed
  moreover have "\<not> f < g"
  proof
    assume "f < g"
    then have "(f + 1) * (f + 1) \<le> g * g"
      using assms(1) by (intro mult_mono) auto
    with assms(3) g(2) show False by linarith
  qed
  ultimately show ?thesis by (simp add: g_def)
qed

lemma floorlog2_square:
  assumes "0 < q"
  shows "floorlog2 (q * q) div 2 = floorlog2 q"
proof -
  define e where "e = floorlog2 q"
  define f where "f = floorlog2 (q * q)"
  have q: "2 powi e \<le> q" "q < 2 powi (e + 1)"
    using assms by (simp_all add: e_def floorlog2_lower floorlog2_upper)
  have qq: "0 < q * q" using assms by simp
  have f: "2 powi f \<le> q * q" "q * q < 2 powi (f + 1)"
    using qq by (simp_all add: f_def floorlog2_lower floorlog2_upper)
  have double: "(2::rat) powi (2 * i) = 2 powi i * 2 powi i" for i :: int
  proof -
    have "(2::rat) powi (i + i) = 2 powi i * 2 powi i"
      by (rule power_int_add) simp
    moreover have "2 * i = i + i" by linarith
    ultimately show ?thesis by (simp only:)
  qed
  have "2 powi e * 2 powi e \<le> q * q"
    using q(1) assms by (intro mult_mono) auto
  then have "(2::rat) powi (2 * e) \<le> q * q"
    by (simp only: double)
  then have "(2::rat) powi (2 * e) < 2 powi (f + 1)" using f(2) by linarith
  then have lo: "2 * e < f + 1"
    using power_int_increasing [of "f + 1" "2 * e" "2::rat"] by (cases "2 * e < f + 1") auto
  have "q * q < 2 powi (e + 1) * 2 powi (e + 1)"
    using q(2) assms by (intro mult_strict_mono) auto
  then have "q * q < (2::rat) powi (2 * (e + 1))"
    by (simp only: double)
  then have "q * q < (2::rat) powi (2 * e + 2)"
    by (simp add: algebra_simps)
  then have "(2::rat) powi f < 2 powi (2 * e + 2)" using f(1) by linarith
  then have hi: "f < 2 * e + 2"
    using power_int_increasing [of "2 * e + 2" f "2::rat"] by (cases "f < 2 * e + 2") auto
  from lo hi show ?thesis unfolding e_def [symmetric] f_def [symmetric] by linarith
qed

lemma sqrt_rnd_square:
  assumes "0 < q" and "is_double q"
  shows "sqrt_rnd (q * q) = Fin q"
proof -
  define k where "k = quantum (floorlog2 q)"
  define n where "n = round_half_even (q / 2 powi k)"
  have "rnd q = pack False n k"
    using assms(1) by (simp add: rnd_def Let_def k_def n_def)
  then have p: "pack False n k = Fin q"
    using assms(2) by (simp add: is_double_def)
  then have q: "q = of_int n * 2 powi k"
    by (simp add: pack_def Let_def split: if_splits)
  have npos: "0 < n"
    using assms(1) zero_less_mult_pos2 [of "of_int n :: rat" "2 powi k"] unfolding q
    by simp
  have "(4::rat) powi k = (2 * 2) powi k" by simp
  also have "\<dots> = 2 powi k * 2 powi k" by (rule power_int_mult_distrib)
  finally have four: "(4::rat) powi k = 2 powi k * 2 powi k" .
  have t: "q * q / 4 powi k = of_int (n * n)"
    by (simp add: q four)
  have root: "isqrt (n * n) = n"
    using npos by (intro isqrt_unique) (auto simp add: algebra_simps)
  have fl: "\<lfloor>q * q / 4 powi k\<rfloor> = n * n"
    by (simp only: t floor_of_int)
  have below: "q * q / 4 powi k < of_int (n * n + n) + 1 / 4"
    using npos by (simp add: t)
  have "sqrt_rnd (q * q) = pack False n k"
    unfolding sqrt_rnd_def Let_def floorlog2_square [OF assms(1)] k_def [symmetric] fl root
    using below by simp
  with p show ?thesis by simp
qed

lemma hypot_axis_x:
  assumes "is_double a"
  shows "hypot (Fin a) (Fin 0) = Fin \<bar>a\<bar>"
proof (cases "a = 0")
  case True
  then show ?thesis by simp
next
  case False
  have "is_double \<bar>a\<bar>"
    using assms is_double_minus [of a] by (simp add: abs_if)
  moreover have "0 < \<bar>a\<bar>" using False by simp
  ultimately have "sqrt_rnd (\<bar>a\<bar> * \<bar>a\<bar>) = Fin \<bar>a\<bar>" by (intro sqrt_rnd_square)
  then show ?thesis using False by simp
qed

lemma hypot_commute: "hypot m n = hypot n m"
  by (cases m; cases n) (auto simp add: add.commute)

lemma hypot_axis_y:
  assumes "is_double a"
  shows "hypot (Fin 0) (Fin a) = Fin \<bar>a\<bar>"
  using hypot_axis_x [OF assms] by (simp only: hypot_commute [of "Fin 0"])

lemma rnd_small:
  "rnd 1 = Fin 1" "rnd 2 = Fin 2" "rnd 4 = Fin 4" "rnd (- 1) = Fin (- 1)" "rnd (- 2) = Fin (- 2)"
  using is_double_of_int [of 1] is_double_of_int [of 2] is_double_of_int [of 4]
    is_double_of_int [of "- 1"] is_double_of_int [of "- 2"]
  by (simp_all add: is_double_def)

lemma sqrt_rnd_small: "sqrt_rnd 1 = Fin 1" "sqrt_rnd 4 = Fin 2"
  using sqrt_rnd_square [of 1] sqrt_rnd_square [of 2] rnd_small
  by (simp_all add: is_double_def)

subsection \<open>The shape of the finite numbers\<close>

lemma is_double_pos_dest:
  assumes "is_double q" and "0 < q"
  obtains n where "q = of_int n * 2 powi quantum (floorlog2 q)" and "0 < n" and "n < 2 ^ 53"
    and "q < 2 ^ 1024"
proof -
  define e where "e = floorlog2 q"
  define k where "k = quantum e"
  define n where "n = round_half_even (q / 2 powi k)"
  have "rnd q = pack False n k"
    using assms(2) by (simp add: rnd_def Let_def k_def e_def n_def)
  then have p: "pack False n k = Fin q"
    using assms(1) by (simp add: is_double_def)
  then have q: "q = of_int n * 2 powi k" and small: "q < 2 ^ 1024"
    by (simp_all add: pack_def Let_def split: if_splits)
  have npos: "0 < n"
    using assms(2) zero_less_mult_pos2 [of "of_int n :: rat" "2 powi k"] unfolding q
    by simp
  have "q < 2 powi (e + 1)"
    unfolding e_def using assms(2) by (rule floorlog2_upper)
  also have "\<dots> \<le> 2 powi (k + 53)"
    by (intro power_int_increasing) (auto simp add: k_def quantum_def)
  also have "\<dots> = 2 ^ 53 * 2 powi k"
    by (simp add: power_int_add)
  finally have "of_int n * 2 powi k < (2::rat) ^ 53 * 2 powi k"
    unfolding q [symmetric] .
  then have "(of_int n :: rat) < 2 ^ 53" by simp
  then have "n < 2 ^ 53" by (simp only: of_int_less_numeral_power_cancel_iff)
  with q npos small show thesis
    by (intro that [of n]) (simp_all add: k_def e_def)
qed

lemma floorlog2_le:
  assumes "0 < q" and "q < 2 powi i"
  shows "floorlog2 q < i"
proof -
  have "2 powi floorlog2 q < (2::rat) powi i"
    using floorlog2_lower [OF assms(1)] assms(2) by linarith
  then show ?thesis
    using power_int_increasing [of i "floorlog2 q" "2::rat"] by (cases "floorlog2 q < i") auto
qed

lemma is_double_twice_pos:
  assumes "is_double q" and "0 < q" and "q < 2 ^ 1023"
  shows "is_double (2 * q)"
proof -
  obtain n where q: "q = of_int n * 2 powi quantum (floorlog2 q)" and n: "0 < n" "n < 2 ^ 53"
    using assms(1,2) by (rule is_double_pos_dest)
  have "q < 2 powi 1023" using assms(3) by simp
  then have "floorlog2 q < 1023" using assms(2) by (intro floorlog2_le)
  then have k: "- 1074 \<le> quantum (floorlog2 q) + 1" "quantum (floorlog2 q) + 1 \<le> 971"
    by (simp_all add: quantum_def)
  have "2 * q = of_int n * 2 powi (quantum (floorlog2 q) + 1)"
    by (subst q) (simp add: power_int_add)
  moreover have "is_double (of_int n * 2 powi (quantum (floorlog2 q) + 1))"
    using n k by (intro is_double_dyadic) auto
  ultimately show ?thesis by simp
qed

lemma is_double_twice:
  assumes "is_double q" and "\<bar>q\<bar> < 2 ^ 1023"
  shows "is_double (2 * q)"
proof -
  consider "q = 0" | "0 < q" | "q < 0" by linarith
  then show ?thesis
  proof cases
    case 1
    then show ?thesis by (simp add: is_double_zero)
  next
    case 2
    with assms show ?thesis by (intro is_double_twice_pos) auto
  next
    case 3
    with assms have "is_double (2 * (- q))"
      by (intro is_double_twice_pos is_double_minus) auto
    then have "is_double (- (2 * (- q)))" by (rule is_double_minus)
    then show ?thesis by simp
  qed
qed

lemma is_double_abs: "is_double a \<Longrightarrow> is_double \<bar>a\<bar>"
  using is_double_minus [of a] by (simp add: abs_if)

lemma is_double_ge_min:
  assumes "is_double a" and "a \<noteq> 0"
  shows "1 / 2 ^ 1074 \<le> \<bar>a\<bar>"
proof -
  have d: "is_double \<bar>a\<bar>" using assms(1) by (rule is_double_abs)
  have pos: "0 < \<bar>a\<bar>" using assms(2) by simp
  obtain n where a: "\<bar>a\<bar> = of_int n * 2 powi quantum (floorlog2 \<bar>a\<bar>)" and n: "0 < n"
    using d pos by (rule is_double_pos_dest)
  have "(2::rat) powi (- 1074) \<le> 2 powi quantum (floorlog2 \<bar>a\<bar>)"
    by (intro power_int_increasing) (auto simp add: quantum_def)
  also have "\<dots> = 1 * 2 powi quantum (floorlog2 \<bar>a\<bar>)" by simp
  also have "\<dots> \<le> of_int n * 2 powi quantum (floorlog2 \<bar>a\<bar>)"
    using n by (intro mult_right_mono) auto
  finally show ?thesis
    unfolding a [symmetric] by (simp add: power_int_minus_divide)
qed

lemma is_double_lt_max:
  assumes "is_double a"
  shows "\<bar>a\<bar> < 2 ^ 1024"
proof (cases "a = 0")
  case True
  then show ?thesis by simp
next
  case False
  have d: "is_double \<bar>a\<bar>" using assms by (rule is_double_abs)
  have pos: "0 < \<bar>a\<bar>" using False by simp
  show ?thesis using d pos by (rule is_double_pos_dest)
qed

text \<open>
  Every finite number is a multiple of \<open>2^-1074\<close>, and so the only vectors of numbers
  whose squares sum to exactly 1 are the four unit vectors along the axes.
\<close>

lemma sum_squares_power4:
  fixes M N :: int
  shows "M * M + N * N = 4 ^ K \<Longrightarrow> M = 0 \<or> N = 0"
proof (induction K arbitrary: M N)
  case 0
  show ?case
  proof (cases "M = 0")
    case True
    then show ?thesis ..
  next
    case False
    then have "1 \<le> \<bar>M\<bar>" by simp
    then have "1 * 1 \<le> \<bar>M\<bar> * \<bar>M\<bar>" by (intro mult_mono) auto
    then have "1 \<le> M * M" by simp
    moreover have "0 \<le> N * N" by simp
    moreover have "M * M + N * N = 1" using "0.prems" by simp
    ultimately have "N * N = 0" by linarith
    then show ?thesis by simp
  qed
next
  case (Suc K)
  have sq_odd: "(2 * p + 1) * (2 * p + 1) = 4 * (p * p + p) + 1" for p :: int
    by (simp add: algebra_simps)
  have sq_even: "(2 * p) * (2 * p) = 4 * (p * p)" for p :: int
    by simp
  have "even M"
  proof (rule ccontr)
    assume "odd M"
    then obtain p where M: "M = 2 * p + 1" by (elim oddE)
    show False
    proof (cases "even N")
      case True
      then obtain q where N: "N = 2 * q" by (elim evenE)
      from Suc.prems have "4 * (p * p + p) + 1 + 4 * (q * q) = 4 * 4 ^ K"
        unfolding M N sq_odd sq_even by simp
      then show False by presburger
    next
      case False
      then obtain q where N: "N = 2 * q + 1" by (elim oddE)
      from Suc.prems have "4 * (p * p + p) + 1 + (4 * (q * q + q) + 1) = 4 * 4 ^ K"
        unfolding M N sq_odd by simp
      then show False by presburger
    qed
  qed
  then obtain p where M: "M = 2 * p" by (elim evenE)
  have "even N"
  proof (rule ccontr)
    assume "odd N"
    then obtain q where N: "N = 2 * q + 1" by (elim oddE)
    from Suc.prems have "4 * (p * p) + (4 * (q * q + q) + 1) = 4 * 4 ^ K"
      unfolding M N sq_odd sq_even by simp
    then show False by presburger
  qed
  then obtain q where N: "N = 2 * q" by (elim evenE)
  from Suc.prems have "4 * (p * p) + 4 * (q * q) = 4 * 4 ^ K"
    unfolding M N sq_even by simp
  then have "p * p + q * q = 4 ^ K" by simp
  then have "p = 0 \<or> q = 0" by (rule Suc.IH)
  then show ?case by (auto simp add: M N)
qed

lemma double_grid_pos:
  assumes "is_double q" and "0 < q"
  shows "\<exists>m::int. q = of_int m / 2 ^ 1074"
proof -
  obtain n where q: "q = of_int n * 2 powi quantum (floorlog2 q)"
    using assms by (rule is_double_pos_dest)
  define j where "j = nat (quantum (floorlog2 q) + 1074)"
  have "0 \<le> quantum (floorlog2 q) + 1074" by (simp add: quantum_def)
  then have "quantum (floorlog2 q) = int j - 1074" by (simp add: j_def)
  then have "(2::rat) powi quantum (floorlog2 q) = 2 powi (int j - 1074)" by simp
  also have "\<dots> = 2 powi (int j) * 2 powi (- 1074)"
    using power_int_add [of "2::rat" "int j" "- 1074"] by simp
  also have "\<dots> = 2 ^ j / 2 ^ 1074"
    by (simp add: power_int_minus_divide)
  finally have "q = of_int (n * 2 ^ j) / 2 ^ 1074"
    by (subst q) simp
  then show ?thesis ..
qed

lemma double_grid:
  assumes "is_double q"
  shows "\<exists>m::int. q = of_int m / 2 ^ 1074"
proof -
  consider "q = 0" | "0 < q" | "q < 0" by linarith
  then show ?thesis
  proof cases
    case 1
    then have "q = of_int 0 / 2 ^ 1074" by simp
    then show ?thesis ..
  next
    case 2
    with assms show ?thesis by (rule double_grid_pos)
  next
    case 3
    then have "\<exists>m::int. - q = of_int m / 2 ^ 1074"
      using assms by (intro double_grid_pos is_double_minus) auto
    then obtain m :: int where "- q = of_int m / 2 ^ 1074" ..
    then have "q = of_int (- m) / 2 ^ 1074" by simp
    then show ?thesis ..
  qed
qed

lemma unit_double_axis:
  assumes "is_double c" and "is_double d" and "c * c + d * d = 1"
  shows "(c = 0 \<and> (d = 1 \<or> d = - 1)) \<or> (d = 0 \<and> (c = 1 \<or> c = - 1))"
proof -
  obtain M :: int where c: "c = of_int M / 2 ^ 1074"
    using double_grid [OF assms(1)] ..
  obtain N :: int where d: "d = of_int N / 2 ^ 1074"
    using double_grid [OF assms(2)] ..
  define g :: rat where "g = 2 ^ 1074"
  have g: "0 < g" by (simp add: g_def)
  have "of_int M / g * (of_int M / g) + of_int N / g * (of_int N / g) = 1"
    using assms(3) unfolding c d g_def .
  then have "(of_int (M * M + N * N) :: rat) = g * g"
    using g by (simp add: field_simps)
  also have "g * g = of_int (4 ^ 1074)"
    unfolding g_def by (simp add: power_mult_distrib [of 2 2 1074, simplified])
  finally have "M * M + N * N = 4 ^ 1074"
    by (simp only: of_int_eq_iff)
  then have "M = 0 \<or> N = 0" by (rule sum_squares_power4)
  then have "c = 0 \<or> d = 0" by (auto simp add: c d)
  then show ?thesis
  proof
    assume "c = 0"
    with assms(3) have "d * d = 1" by simp
    then have "d = 1 \<or> d = - 1" by (simp add: square_eq_1_iff)
    with \<open>c = 0\<close> show ?thesis by simp
  next
    assume "d = 0"
    with assms(3) have "c * c = 1" by simp
    then have "c = 1 \<or> c = - 1" by (simp add: square_eq_1_iff)
    with \<open>d = 0\<close> show ?thesis by simp
  qed
qed

subsection \<open>Bounds on rounding\<close>

lemma round_half_even_upper: "of_int (round_half_even t) \<le> t + 1 / 2"
proof -
  have "of_int \<lfloor>t\<rfloor> \<le> t" by simp
  then show ?thesis
    by (auto simp add: round_half_even_def Let_def) linarith+
qed

lemma round_half_even_lower: "t - 1 / 2 \<le> of_int (round_half_even t)"
proof -
  have "t < of_int \<lfloor>t\<rfloor> + 1" using floor_correct [of t] by simp
  then show ?thesis
    by (auto simp add: round_half_even_def Let_def)
qed

lemma rnd_finite_small:
  assumes "\<bar>q\<bar> < 2 ^ 1023"
  shows "\<exists>c. rnd q = Fin c"
proof (cases "q = 0")
  case True
  then show ?thesis by (simp add: rnd_def)
next
  case False
  define k where "k = quantum (floorlog2 \<bar>q\<bar>)"
  define n where "n = round_half_even (\<bar>q\<bar> / 2 powi k)"
  have pos: "0 < \<bar>q\<bar>" using False by simp
  have "\<bar>q\<bar> < 2 powi 1023" using assms by simp
  then have "floorlog2 \<bar>q\<bar> < 1023" using pos by (intro floorlog2_le)
  then have "k \<le> 970" by (simp add: k_def quantum_def)
  then have "(2::rat) powi k \<le> 2 powi 970" by (intro power_int_increasing) auto
  then have k: "(2::rat) powi k \<le> 2 ^ 970" by simp
  have "of_int n \<le> \<bar>q\<bar> / 2 powi k + 1 / 2"
    unfolding n_def by (rule round_half_even_upper)
  then have "of_int n * 2 powi k \<le> (\<bar>q\<bar> / 2 powi k + 1 / 2) * 2 powi k"
    by (intro mult_right_mono) auto
  also have "\<dots> = \<bar>q\<bar> + 2 powi k / 2" by (simp add: field_simps)
  also have "\<dots> < 2 ^ 1023 + 2 ^ 970"
  proof -
    have "0 < (2::rat) ^ 970" by simp
    with assms k show ?thesis by linarith
  qed
  also have "\<dots> < (2::rat) ^ 1024" by simp
  finally have "of_int n * 2 powi k < (2::rat) ^ 1024" .
  then show ?thesis
    using False by (simp add: rnd_def Let_def pack_def flip: k_def n_def)
qed

lemma rnd_upper:
  assumes "0 < q" and "rnd q = Fin c"
  shows "c \<le> 2 * q + 1 / 2 ^ 1075"
proof -
  define e where "e = floorlog2 q"
  define k where "k = quantum e"
  define n where "n = round_half_even (q / 2 powi k)"
  have "rnd q = pack False n k"
    using assms(1) by (simp add: rnd_def Let_def k_def e_def n_def)
  then have c: "c = of_int n * 2 powi k"
    using assms(2) by (simp add: pack_def Let_def split: if_splits)
  have "of_int n \<le> q / 2 powi k + 1 / 2"
    unfolding n_def by (rule round_half_even_upper)
  then have "of_int n * 2 powi k \<le> (q / 2 powi k + 1 / 2) * 2 powi k"
    by (intro mult_right_mono) auto
  also have "\<dots> = q + 2 powi k / 2" by (simp add: field_simps)
  finally have le: "c \<le> q + 2 powi k / 2" by (simp add: c)
  have "(2::rat) powi k / 2 \<le> q + 1 / 2 ^ 1075"
  proof (cases "- 1022 \<le> e")
    case True
    then have "k \<le> e" by (simp add: k_def quantum_def)
    then have "(2::rat) powi k \<le> 2 powi e" by (intro power_int_increasing) auto
    also have "\<dots> \<le> q" unfolding e_def using assms(1) by (rule floorlog2_lower)
    finally show ?thesis using assms(1) by simp
  next
    case False
    then have "k = - 1074" by (simp add: k_def quantum_def)
    then show ?thesis using assms(1) by (simp add: power_int_minus_divide)
  qed
  with le show ?thesis by linarith
qed

lemma rnd_nonneg:
  assumes "0 < q" and "rnd q = Fin c"
  shows "0 \<le> c"
proof -
  define k where "k = quantum (floorlog2 q)"
  define n where "n = round_half_even (q / 2 powi k)"
  have "rnd q = pack False n k"
    using assms(1) by (simp add: rnd_def Let_def k_def n_def)
  then have c: "c = of_int n * 2 powi k"
    using assms(2) by (simp add: pack_def Let_def split: if_splits)
  have "0 < q / 2 powi k" using assms(1) by simp
  moreover have "q / 2 powi k - 1 / 2 \<le> of_int n"
    unfolding n_def by (rule round_half_even_lower)
  ultimately have "- (1 / 2) < (of_int n :: rat)" by linarith
  then have "0 \<le> n" by linarith
  then show ?thesis by (simp add: c)
qed

lemma rnd_power2_overflow:
  assumes "1024 \<le> i"
  shows "rnd (2 powi i) = PInf"
proof -
  have q: "quantum i = i - 52" using assms by (simp add: quantum_def)
  have parts: "(2::rat) powi i = 2 powi (i - 52) * 2 powi 52"
    using power_int_add [of "2::rat" "i - 52" 52] by simp
  then have t: "(2::rat) powi i / 2 powi (i - 52) = of_int (2 ^ 52)"
    by simp
  have "(2::rat) powi 1024 \<le> 2 powi i"
    using assms by (intro power_int_increasing) auto
  then have big: "(2::rat) ^ 1024 \<le> 2 powi i" by simp
  have "\<not> (2::rat) powi i < 0" by (simp add: not_less)
  then have "rnd (2 powi i) = pack False (round_half_even (\<bar>2 powi i\<bar> / 2 powi quantum i)) (quantum i)"
    using rnd_eval [of i "2 powi i"] by (simp add: power_int_add)
  also have "\<bar>(2::rat) powi i\<bar> = 2 powi i" by simp
  also have "pack False (round_half_even ((2::rat) powi i / 2 powi quantum i)) (quantum i)
      = pack False (2 ^ 52) (i - 52)"
    by (simp only: q t round_half_even_of_int)
  also have "\<dots> = PInf"
  proof -
    have "of_int (2 ^ 52) * (2::rat) powi (i - 52) = 2 powi i"
      using parts by simp
    then show ?thesis
      unfolding pack_def Let_def using big by simp
  qed
  finally show ?thesis .
qed

lemma rnd_fifth: "rnd (1 / 5) = Fin (7205759403792794 / 2 ^ 55)"
  by (rule rnd_cert [where e = "- 3" and n = 7205759403792794 and k = "- 55"])
    (simp_all add: quantum_def)

lemma rnd_forty_ninth: "rnd (1 / 49) = Fin (5882252574524729 / 2 ^ 58)"
  by (rule rnd_cert [where e = "- 6" and n = 5882252574524729 and k = "- 58"])
    (simp_all add: quantum_def)

lemma rnd_forty_nine_times: "rnd (49 * (5882252574524729 / 2 ^ 58)) = Fin (9007199254740991 / 2 ^ 53)"
  by (rule rnd_cert [where e = "- 1" and n = 9007199254740991 and k = "- 53"])
    (simp_all add: quantum_def)

subsection \<open>Bounds on rounded roots\<close>

lemma four_powi: "(4::rat) powi i = 2 powi (2 * i)"
proof -
  have "(4::rat) powi i = (2 * 2) powi i" by simp
  also have "\<dots> = 2 powi i * 2 powi i" by (rule power_int_mult_distrib)
  also have "\<dots> = 2 powi (i + i)" by (rule power_int_add [symmetric]) simp
  also have "i + i = 2 * i" by simp
  finally show ?thesis .
qed

lemma four_powi_square: "(4::rat) powi i = 2 powi i * 2 powi i"
proof -
  have "(4::rat) powi i = (2 * 2) powi i" by simp
  also have "\<dots> = 2 powi i * 2 powi i" by (rule power_int_mult_distrib)
  finally show ?thesis .
qed

lemma quantum_le_sqrt:
  assumes "0 < s" and "1 / 4 ^ 1074 \<le> s"
  shows "4 powi quantum (floorlog2 s div 2) \<le> s"
proof (cases "- 1022 \<le> floorlog2 s div 2")
  case True
  then have "quantum (floorlog2 s div 2) \<le> floorlog2 s div 2"
    by (simp add: quantum_def)
  then have "(4::rat) powi quantum (floorlog2 s div 2) \<le> 4 powi (floorlog2 s div 2)"
    by (intro power_int_increasing) auto
  also have "\<dots> = 2 powi (2 * (floorlog2 s div 2))" by (rule four_powi)
  also have "\<dots> \<le> 2 powi floorlog2 s"
    by (intro power_int_increasing) auto
  also have "\<dots> \<le> s" using assms(1) by (rule floorlog2_lower)
  finally show ?thesis .
next
  case False
  then have "quantum (floorlog2 s div 2) = - 1074" by (simp add: quantum_def)
  then show ?thesis using assms(2) by (simp add: power_int_minus_divide)
qed

lemma sqrt_rnd_lower:
  assumes "sqrt_rnd s = Fin l" and "0 \<le> a" and "a * a \<le> s"
    and "4 powi quantum (floorlog2 s div 2) \<le> s"
  shows "a < 2 * l"
proof -
  define k where "k = quantum (floorlog2 s div 2)"
  define t where "t = s / 4 powi k"
  define f where "f = isqrt \<lfloor>t\<rfloor>"
  define n where "n = (if t < of_int (f * f + f) + 1 / 4 then f
    else if of_int (f * f + f) + 1 / 4 < t then f + 1 else if even f then f else f + 1)"
  have "sqrt_rnd s = pack False n k"
    by (simp add: sqrt_rnd_def Let_def k_def t_def f_def n_def)
  then have l: "l = of_int n * 2 powi k"
    using assms(1) by (simp add: pack_def Let_def split: if_splits)
  have "1 \<le> t"
    using assms(4) by (simp add: t_def k_def)
  then have fl: "1 \<le> \<lfloor>t\<rfloor>" by simp
  then have b: "0 \<le> f" "\<lfloor>t\<rfloor> < (f + 1) * (f + 1)"
    using isqrt_bounds [of "\<lfloor>t\<rfloor>"] by (simp_all add: f_def)
  have f1: "1 \<le> f"
  proof (rule ccontr)
    assume "\<not> 1 \<le> f"
    with b(1) have "f = 0" by simp
    with b(2) fl show False by simp
  qed
  have nf: "f \<le> n" by (simp add: n_def)
  have "\<lfloor>t\<rfloor> + 1 \<le> (f + 1) * (f + 1)" using b(2) by simp
  then have "(of_int (\<lfloor>t\<rfloor> + 1) :: rat) \<le> of_int ((f + 1) * (f + 1))"
    by (simp only: of_int_le_iff)
  moreover have "t < of_int (\<lfloor>t\<rfloor> + 1)" using floor_correct [of t] by simp
  ultimately have tlt: "t < of_int (f + 1) * of_int (f + 1)" by simp
  define u :: rat where "u = of_int (f + 1) * 2 powi k"
  have upos: "0 < u" using b(1) by (simp add: u_def)
  have "s = t * 4 powi k" by (simp add: t_def)
  also have "\<dots> < of_int (f + 1) * of_int (f + 1) * 4 powi k"
    using tlt by (intro mult_strict_right_mono) auto
  also have "\<dots> = u * u" by (simp add: u_def four_powi_square)
  finally have "a * a < u * u" using assms(3) by linarith
  then have "a < u"
    using assms(2) upos mult_mono [of u a u a] by (cases "a < u") auto
  also have "u \<le> of_int (2 * n) * 2 powi k"
  proof -
    have "f + 1 \<le> 2 * n" using f1 nf by linarith
    then have "(of_int (f + 1) :: rat) \<le> of_int (2 * n)" by (simp only: of_int_le_iff)
    then show ?thesis unfolding u_def by (intro mult_right_mono) auto
  qed
  also have "\<dots> = 2 * l" by (simp add: l)
  finally show ?thesis .
qed

lemma hypot_lower:
  assumes "is_double a" and "a \<noteq> 0" and "hypot (Fin a) (Fin b) = Fin l"
  shows "\<bar>a\<bar> < 2 * l"
proof -
  define s where "s = a * a + b * b"
  have root: "sqrt_rnd s = Fin l" using assms(2,3) by (simp add: s_def)
  define m :: rat where "m = 1 / 2 ^ 1074"
  have "m \<le> \<bar>a\<bar>" unfolding m_def using assms(1,2) by (rule is_double_ge_min)
  then have "m * m \<le> \<bar>a\<bar> * \<bar>a\<bar>"
    by (intro mult_mono) (auto simp add: m_def)
  moreover have "m * m = 1 / (4::rat) ^ 1074"
    unfolding m_def by (simp add: power_mult_distrib [of 2 2 1074, simplified])
  moreover have "0 \<le> b * b" by simp
  moreover have "\<bar>a\<bar> * \<bar>a\<bar> = a * a" by simp
  ultimately have small: "1 / 4 ^ 1074 \<le> s" and sq: "\<bar>a\<bar> * \<bar>a\<bar> \<le> s"
    unfolding s_def by linarith+
  have "(0::rat) < 1 / 4 ^ 1074" by simp
  with small have pos: "0 < s" by linarith
  show ?thesis
    using root _ sq quantum_le_sqrt [OF pos small] by (rule sqrt_rnd_lower) simp
qed

lemma floorlog2_div2:
  assumes "4 powi e \<le> s" and "s < 4 powi (e + 1)"
  shows "floorlog2 s div 2 = e"
proof -
  have "0 < (4::rat) powi e" by simp
  then have pos: "0 < s" using assms(1) by linarith
  have "(2::rat) powi (2 * e) < 2 powi (floorlog2 s + 1)"
    using assms(1) floorlog2_upper [OF pos] by (simp add: four_powi)
  then have lo: "2 * e < floorlog2 s + 1"
    using power_int_increasing [of "floorlog2 s + 1" "2 * e" "2::rat"]
    by (cases "2 * e < floorlog2 s + 1") auto
  have "(2::rat) powi floorlog2 s < 2 powi (2 * (e + 1))"
    using assms(2) floorlog2_lower [OF pos] by (simp add: four_powi)
  then have hi: "floorlog2 s < 2 * (e + 1)"
    using power_int_increasing [of "2 * (e + 1)" "floorlog2 s" "2::rat"]
    by (cases "floorlog2 s < 2 * (e + 1)") auto
  from lo hi show ?thesis by presburger
qed

lemma sqrt_rnd_cert:
  assumes "4 powi e \<le> s" and "s < 4 powi (e + 1)" and "k = quantum e"
    and "0 \<le> f" and "of_int (f * f) \<le> s / 4 powi k"
    and "s / 4 powi k < of_int ((f + 1) * (f + 1))"
  shows "sqrt_rnd s =
    pack False (if s / 4 powi k < of_int (f * f + f) + 1 / 4 then f
                else if of_int (f * f + f) + 1 / 4 < s / 4 powi k then f + 1
                else if even f then f else f + 1) k"
proof -
  have k: "quantum (floorlog2 s div 2) = k"
    using floorlog2_div2 [OF assms(1,2)] assms(3) by simp
  have "f * f \<le> \<lfloor>s / 4 powi k\<rfloor>"
    using assms(5) by (simp only: le_floor_iff)
  moreover have "\<lfloor>s / 4 powi k\<rfloor> < (f + 1) * (f + 1)"
    using assms(6) by (simp only: floor_less_iff)
  ultimately have root: "isqrt \<lfloor>s / 4 powi k\<rfloor> = f"
    using assms(4) by (intro isqrt_unique)
  show ?thesis
    unfolding sqrt_rnd_def Let_def k root ..
qed

lemma sqrt_rnd_nearest:
  assumes "4 powi e \<le> s" and "s < 4 powi (e + 1)" and "k = quantum e"
    and "0 \<le> f" and "of_int (f * f) \<le> s / 4 powi k"
    and "s / 4 powi k < of_int ((f + 1) * (f + 1))"
    and "n = (if s / 4 powi k < of_int (f * f + f) + 1 / 4 then f
              else if of_int (f * f + f) + 1 / 4 < s / 4 powi k then f + 1
              else if even f then f else f + 1)"
  shows "sqrt_rnd s = pack False n k"
  unfolding assms(7) using assms(1-6) by (rule sqrt_rnd_cert)

lemma root_near_one: "sqrt_rnd (1 + 9 / 2 ^ 56) = Fin 1"
proof -
  have "sqrt_rnd (1 + 9 / 2 ^ 56) = pack False (2 ^ 52) (- 52)"
    by (rule sqrt_rnd_nearest [where e = 0 and f = "2 ^ 52"]) (simp_all add: quantum_def)
  also have "\<dots> = Fin 1"
    by (simp add: pack_def)
  finally show ?thesis .
qed

lemma root_above_one: "sqrt_rnd (1 + 9 / 2 ^ 54) = Fin (1 + 1 / 2 ^ 52)"
proof -
  have "sqrt_rnd (1 + 9 / 2 ^ 54) = pack False (2 ^ 52 + 1) (- 52)"
    by (rule sqrt_rnd_nearest [where e = 0 and f = "2 ^ 52 + 1"]) (simp_all add: quantum_def)
  also have "\<dots> = Fin (1 + 1 / 2 ^ 52)"
    by (simp add: pack_def)
  finally show ?thesis .
qed

lemma hypot_finite_cases:
  "hypot (Fin a) (Fin b) = PInf \<or> (\<exists>l. hypot (Fin a) (Fin b) = Fin l \<and> 0 \<le> l)"
proof (cases "a = 0 \<and> b = 0")
  case True
  then show ?thesis by simp
next
  case False
  then have "hypot (Fin a) (Fin b) = sqrt_rnd (a * a + b * b)" by auto
  moreover have "0 \<le> isqrt n" for n
    using isqrt_bounds [of n] by (cases "0 \<le> n") (auto simp add: isqrt.simps [of n])
  ultimately show ?thesis
    by (auto simp add: sqrt_rnd_def pack_def Let_def intro!: mult_nonneg_nonneg add_nonneg_nonneg)
qed

section \<open>The vector operations\<close>

subsection \<open>Formulas and scaling\<close>

text \<open>
  C6. \<^verbatim>\<open>u.projectOn(v)\<close> is the vector \<open>(amt * v.x, amt * v.y)\<close> with
  \<open>amt = u.dotProduct(v) / v.length()\<close>, whatever the length of \<open>v\<close>: the length
  divides once. So \<open>(2,0)\<close> projected on \<open>(2,0)\<close> is \<open>(4,0)\<close>, where a division by
  the squared length would give \<open>(2,0)\<close>.
\<close>

theorem projectOn_formula:
  "projectOn u v =
     Vector (fmul (fdiv (dotProduct u v) (length' v)) (x v))
            (fmul (fdiv (dotProduct u v) (length' v)) (y v)) \<and>
   projectOn (Vector (Fin 2) (Fin 0)) (Vector (Fin 2) (Fin 0)) = Vector (Fin 4) (Fin 0)"
  by (simp add: projectOn_def dotProduct_def length'_def Let_def rnd_zero rnd_small sqrt_rnd_small)

lemma scaled_twice:
  "fmul (fmul (rnd (1 / 10)) (rnd (2 / 10))) (rnd (3 / 10)) = Fin (6917529027641083 / 2 ^ 60)"
  by (simp only: literal_0_1 literal_0_2 literal_0_3 fmul.simps product_0_1_0_2 product_left)

lemma scaled_once:
  "fmul (rnd (1 / 10)) (fmul (rnd (2 / 10)) (rnd (3 / 10))) = Fin (6917529027641082 / 2 ^ 60)"
  by (simp only: literal_0_1 literal_0_2 literal_0_3 fmul.simps product_0_2_0_3 product_right)

text \<open>
  C8, as the spec states it, fails on binary64: the products round. With the
  literals \<open>0.1\<close>, \<open>0.2\<close> and \<open>0.3\<close>,
  \<^verbatim>\<open>new Vector(0.1, 0).scaleBy(0.2).scaleBy(0.3)\<close> has \<open>x = 0.006000000000000001\<close> and
  \<^verbatim>\<open>new Vector(0.1, 0).scaleBy(0.2 * 0.3)\<close> has \<open>x = 0.006\<close>.
\<close>

theorem scaleBy_twice_counterexample:
  "scaleBy (scaleBy (Vector (rnd (1 / 10)) (Fin 0)) (rnd (2 / 10))) (rnd (3 / 10))
     \<noteq> scaleBy (Vector (rnd (1 / 10)) (Fin 0)) (fmul (rnd (2 / 10)) (rnd (3 / 10)))"
proof -
  have "fmul (fmul (rnd (1 / 10)) (rnd (2 / 10))) (rnd (3 / 10))
          \<noteq> fmul (rnd (1 / 10)) (fmul (rnd (2 / 10)) (rnd (3 / 10)))"
    unfolding scaled_twice scaled_once by simp
  then show ?thesis
    unfolding scaleBy_def vector.sel vector.inject by blast
qed

text \<open>
  C8, amended. For a finite vector \<open>(a, b)\<close> and finite scalars \<open>k\<close> and \<open>j\<close> such
  that the products \<open>a * k\<close>, \<open>b * k\<close> and \<open>k * j\<close> are computed without rounding,
  \<^verbatim>\<open>v.scaleBy(k).scaleBy(j)\<close> equals \<^verbatim>\<open>v.scaleBy(k * j)\<close>.
\<close>

theorem scaleBy_twice_exact:
  assumes "fmul (Fin a) (Fin k) = Fin (a * k)"
    and "fmul (Fin b) (Fin k) = Fin (b * k)"
    and "fmul (Fin k) (Fin j) = Fin (k * j)"
  shows "scaleBy (scaleBy (Vector (Fin a) (Fin b)) (Fin k)) (Fin j)
           = scaleBy (Vector (Fin a) (Fin b)) (fmul (Fin k) (Fin j))"
  using assms by (simp add: scaleBy_def mult.assoc)

theorem scaleBy_twice_exact_witness:
  "fmul (Fin 1) (Fin 3) = Fin (1 * 3) \<and> fmul (Fin 2) (Fin 3) = Fin (2 * 3) \<and>
   fmul (Fin 3) (Fin 4) = Fin (3 * 4) \<and>
   scaleBy (scaleBy (Vector (Fin 1) (Fin 2)) (Fin 3)) (Fin 4)
     = scaleBy (Vector (Fin 1) (Fin 2)) (fmul (Fin 3) (Fin 4))"
proof -
  have a: "fmul (Fin 1) (Fin 3) = Fin (1 * 3)"
    using is_double_of_int [of 3] by (simp add: is_double_def)
  have b: "fmul (Fin 2) (Fin 3) = Fin (2 * 3)"
    using is_double_of_int [of 6] by (simp add: is_double_def)
  have c: "fmul (Fin 3) (Fin 4) = Fin (3 * 4)"
    using is_double_of_int [of 12] by (simp add: is_double_def)
  from scaleBy_twice_exact [OF a b c] a b c show ?thesis
    by blast
qed

subsection \<open>Reflection\<close>

lemma reflect_axis_y:
  assumes "is_double a" and "is_double b" and "\<bar>b\<bar> < 2 ^ 1023" and "s = 1 \<or> s = - 1"
  shows "reflect (Vector (Fin a) (Fin b)) (Vector (Fin 0) (Fin s)) = Vector (Fin a) (Fin (- b))"
proof -
  have ra: "rnd a = Fin a" and rb: "rnd b = Fin b"
    using assms(1,2) by (simp_all add: is_double_def)
  have rnb: "rnd (- b) = Fin (- b)"
    using is_double_minus [OF assms(2)] by (simp add: is_double_def)
  have r2b: "rnd (b * 2) = Fin (b * 2)"
    using is_double_twice [OF assms(2,3)] by (simp add: is_double_def mult.commute)
  have proj: "projectOn (Vector (Fin a) (Fin b)) (Vector (Fin 0) (Fin s)) = Vector (Fin 0) (Fin b)"
    using assms(4)
    by (auto simp add: projectOn_def dotProduct_def length'_def Let_def rnd_zero rb rnb
        sqrt_rnd_small)
  show ?thesis
    by (simp add: reflect_def proj scaleBy_def subtract_def fsub_def rnd_zero ra r2b rnb)
qed

lemma reflect_axis_x:
  assumes "is_double a" and "is_double b" and "\<bar>a\<bar> < 2 ^ 1023" and "s = 1 \<or> s = - 1"
  shows "reflect (Vector (Fin a) (Fin b)) (Vector (Fin s) (Fin 0)) = Vector (Fin (- a)) (Fin b)"
proof -
  have ra: "rnd a = Fin a" and rb: "rnd b = Fin b"
    using assms(1,2) by (simp_all add: is_double_def)
  have rna: "rnd (- a) = Fin (- a)"
    using is_double_minus [OF assms(1)] by (simp add: is_double_def)
  have r2a: "rnd (a * 2) = Fin (a * 2)"
    using is_double_twice [OF assms(1,3)] by (simp add: is_double_def mult.commute)
  have proj: "projectOn (Vector (Fin a) (Fin b)) (Vector (Fin s) (Fin 0)) = Vector (Fin a) (Fin 0)"
    using assms(4)
    by (auto simp add: projectOn_def dotProduct_def length'_def Let_def rnd_zero ra rna
        sqrt_rnd_small)
  show ?thesis
    by (simp add: reflect_def proj scaleBy_def subtract_def fsub_def rnd_zero rb r2a rna)
qed

text \<open>
  A normal whose \<^verbatim>\<open>length()\<close> is 1 need not be a unit vector: the length of
  \<open>(1, 3 * 2^-28)\<close> rounds to 1. Reflecting \<open>(1, 0)\<close> off it computes without
  rounding and gives \<open>(-1, -3 * 2^-27)\<close>, whose length is \<open>1 + 2^-52\<close>.
\<close>

lemma reflect_length_rounding:
  "length' (Vector (Fin 1) (Fin (3 / 2 ^ 28))) = Fin 1 \<and>
   reflect (Vector (Fin 1) (Fin 0)) (Vector (Fin 1) (Fin (3 / 2 ^ 28)))
     = Vector (Fin (- 1)) (Fin (- (3 / 2 ^ 27))) \<and>
   length' (Vector (Fin (- 1)) (Fin (- (3 / 2 ^ 27)))) = Fin (1 + 1 / 2 ^ 52) \<and>
   length' (Vector (Fin 1) (Fin 0)) = Fin 1"
proof -
  define E :: rat where "E = 3 / 2 ^ 28"
  have "is_double (of_int 3 * 2 powi (- 28))" by (rule is_double_dyadic) simp_all
  then have d: "is_double E" by (simp add: E_def)
  have rE: "rnd E = Fin E" using d by (simp add: is_double_def)
  have "is_double (2 * E)" using d by (rule is_double_twice) (simp add: E_def)
  then have r2E: "rnd (E * 2) = Fin (E * 2)" by (simp add: is_double_def mult.commute)
  have rn2E: "rnd (- (E * 2)) = Fin (- (E * 2))"
    using r2E by (simp add: rnd_minus)
  have "hypot (Fin 1) (Fin E) = sqrt_rnd (1 + 9 / 2 ^ 56)"
    by (simp add: E_def)
  then have len_n: "hypot (Fin 1) (Fin E) = Fin 1"
    by (simp only: root_near_one)
  have "hypot (Fin (- 1)) (Fin (- (E * 2))) = sqrt_rnd (1 + 9 / 2 ^ 54)"
    by (simp add: E_def)
  then have len_r: "hypot (Fin (- 1)) (Fin (- (E * 2))) = Fin (1 + 1 / 2 ^ 52)"
    by (simp only: root_above_one)
  have refl: "reflect (Vector (Fin 1) (Fin 0)) (Vector (Fin 1) (Fin E))
      = Vector (Fin (- 1)) (Fin (- (E * 2)))"
    by (simp add: reflect_def projectOn_def dotProduct_def length'_def scaleBy_def subtract_def
        fsub_def Let_def len_n rnd_zero rnd_small rE r2E rn2E del: hypot.simps)
  have twice: "3 / 2 ^ 27 = E * 2" by (simp add: E_def)
  have len_v: "hypot (Fin 1) (Fin 0) = Fin 1" by (simp add: sqrt_rnd_small)
  show ?thesis
    unfolding E_def [symmetric] twice length'_def vector.sel
    using refl len_n len_r len_v by blast
qed

text \<open>
  C2, as the spec states it, fails on binary64. With the unit normal \<open>(0, 1)\<close> and
  \<open>v = (0, 2^1023)\<close>, the doubling in \<^verbatim>\<open>scaleBy(2)\<close> overflows: the reflection is
  \<open>(0, -Infinity)\<close>, of length \<open>Infinity\<close>, and the length of \<open>v\<close> is \<open>2^1023\<close>.
\<close>

theorem reflect_length_counterexample:
  "is_double (2 ^ 1023) \<and>
   length' (Vector (Fin 0) (Fin 1)) = Fin 1 \<and>
   reflect (Vector (Fin 0) (Fin (2 ^ 1023))) (Vector (Fin 0) (Fin 1)) = Vector (Fin 0) NInf \<and>
   length' (reflect (Vector (Fin 0) (Fin (2 ^ 1023))) (Vector (Fin 0) (Fin 1)))
     \<noteq> length' (Vector (Fin 0) (Fin (2 ^ 1023)))"
proof -
  define D :: rat where "D = 2 ^ 1023"
  have "is_double (of_int (2 ^ 52) * 2 powi 971)" by (rule is_double_dyadic) simp_all
  then have d: "is_double D" by (simp add: D_def)
  have rD: "rnd D = Fin D" using d by (simp add: is_double_def)
  have "D * 2 = 2 powi 1024" by (simp add: D_def)
  then have r2D: "rnd (D * 2) = PInf"
    using rnd_power2_overflow [of 1024] by simp
  have pos: "0 < D" by (simp add: D_def)
  have len: "hypot (Fin 0) (Fin D) = Fin D"
    using hypot_axis_y [OF d] pos by simp
  have refl: "reflect (Vector (Fin 0) (Fin D)) (Vector (Fin 0) (Fin 1)) = Vector (Fin 0) NInf"
    by (simp add: reflect_def projectOn_def dotProduct_def length'_def scaleBy_def subtract_def
        fsub_def Let_def rnd_zero rD r2D sqrt_rnd_small)
  show ?thesis
    unfolding D_def [symmetric]
    using d refl len by (simp add: length'_def sqrt_rnd_small)
qed

lemma reflect_axis_same_length:
  assumes "is_double a" and "is_double b" and "\<bar>a\<bar> < 2 ^ 1023" and "\<bar>b\<bar> < 2 ^ 1023"
    and "n \<in> {Vector (Fin 0) (Fin 1), Vector (Fin 0) (Fin (- 1)),
               Vector (Fin 1) (Fin 0), Vector (Fin (- 1)) (Fin 0)}"
  shows "length' n = Fin 1 \<and>
         length' (reflect (Vector (Fin a) (Fin b)) n) = length' (Vector (Fin a) (Fin b))"
proof -
  consider s where "s = 1 \<or> s = - 1" "n = Vector (Fin 0) (Fin s)"
    | s where "s = 1 \<or> s = - 1" "n = Vector (Fin s) (Fin 0)"
    using assms(5) by auto
  then show ?thesis
  proof cases
    case 1
    from 1(1) have "length' n = Fin 1"
      by (auto simp add: 1(2) length'_def sqrt_rnd_small)
    moreover have "reflect (Vector (Fin a) (Fin b)) n = Vector (Fin a) (Fin (- b))"
      unfolding 1(2) using assms(1,2,4) 1(1) by (rule reflect_axis_y)
    ultimately show ?thesis by (simp add: length'_def)
  next
    case 2
    from 2(1) have "length' n = Fin 1"
      by (auto simp add: 2(2) length'_def sqrt_rnd_small)
    moreover have "reflect (Vector (Fin a) (Fin b)) n = Vector (Fin (- a)) (Fin b)"
      unfolding 2(2) using assms(1,2,3) 2(1) by (rule reflect_axis_x)
    ultimately show ?thesis by (simp add: length'_def)
  qed
qed

text \<open>
  C2, amended. For a vector \<open>v\<close> whose components are finite numbers below \<open>2^1023\<close>
  in magnitude and a normal \<open>n\<close> of finite numbers with \<open>n.x * n.x + n.y * n.y\<close> exactly
  1, which are \<open>(0, 1)\<close>, \<open>(0, -1)\<close>, \<open>(1, 0)\<close> and \<open>(-1, 0)\<close>, \<open>n.length()\<close> is 1 and
  \<open>v.reflect(n)\<close> has the same \<^verbatim>\<open>length()\<close> as \<open>v\<close>.
\<close>

theorem reflect_unit_length:
  assumes "is_double a" and "is_double b" and "\<bar>a\<bar> < 2 ^ 1023" and "\<bar>b\<bar> < 2 ^ 1023"
    and "is_double c" and "is_double d" and "c * c + d * d = 1"
  shows "length' (Vector (Fin c) (Fin d)) = Fin 1 \<and>
         length' (reflect (Vector (Fin a) (Fin b)) (Vector (Fin c) (Fin d)))
           = length' (Vector (Fin a) (Fin b))"
proof -
  have "Vector (Fin c) (Fin d) \<in> {Vector (Fin 0) (Fin 1), Vector (Fin 0) (Fin (- 1)),
      Vector (Fin 1) (Fin 0), Vector (Fin (- 1)) (Fin 0)}"
    using unit_double_axis [OF assms(5,6,7)] by auto
  with assms(1-4) show ?thesis by (rule reflect_axis_same_length)
qed

theorem reflect_unit_length_witness:
  "is_double 1 \<and> is_double (- 1) \<and> \<bar>1 :: rat\<bar> < 2 ^ 1023 \<and> \<bar>- 1 :: rat\<bar> < 2 ^ 1023 \<and>
   is_double 0 \<and> (0 :: rat) * 0 + 1 * 1 = 1 \<and>
   length' (Vector (Fin 0) (Fin 1)) = Fin 1 \<and>
   length' (reflect (Vector (Fin 1) (Fin (- 1))) (Vector (Fin 0) (Fin 1)))
     = length' (Vector (Fin 1) (Fin (- 1)))"
proof -
  have a: "is_double 1" using is_double_of_int [of 1] by simp
  have b: "is_double (- 1)" using is_double_of_int [of "- 1"] by simp
  have sa: "\<bar>1 :: rat\<bar> < 2 ^ 1023" by simp
  have sb: "\<bar>- 1 :: rat\<bar> < 2 ^ 1023" by simp
  have unit: "(0 :: rat) * 0 + 1 * 1 = 1" by simp
  from reflect_unit_length [OF a b sa sb is_double_zero a unit] a b sa sb is_double_zero
  show ?thesis by simp
qed

text \<open>
  The two components of a vector relative to a normal \<open>n\<close>, as the class computes
  them: \<^verbatim>\<open>dotProduct(n)\<close> along it and \<^verbatim>\<open>crossProduct(n)\<close> across it. Mirroring one
  coordinate negates the first and keeps the second.
\<close>

lemma reflect_components_y:
  assumes "is_double a" and "is_double b" and "s = 1 \<or> s = - 1"
  shows "dotProduct (Vector (Fin a) (Fin (- b))) (Vector (Fin 0) (Fin s))
           = fneg (dotProduct (Vector (Fin a) (Fin b)) (Vector (Fin 0) (Fin s)))"
    and "crossProduct (Vector (Fin a) (Fin (- b))) (Vector (Fin 0) (Fin s))
           = crossProduct (Vector (Fin a) (Fin b)) (Vector (Fin 0) (Fin s))"
proof -
  have rb: "rnd b = Fin b"
    using assms(2) by (simp add: is_double_def)
  have rnb: "rnd (- b) = Fin (- b)"
    using is_double_minus [OF assms(2)] by (simp add: is_double_def)
  show "dotProduct (Vector (Fin a) (Fin (- b))) (Vector (Fin 0) (Fin s))
           = fneg (dotProduct (Vector (Fin a) (Fin b)) (Vector (Fin 0) (Fin s)))"
    using assms(3) by (auto simp add: dotProduct_def rnd_zero rb rnb)
  show "crossProduct (Vector (Fin a) (Fin (- b))) (Vector (Fin 0) (Fin s))
           = crossProduct (Vector (Fin a) (Fin b)) (Vector (Fin 0) (Fin s))"
    by (simp add: crossProduct_def fsub_def rnd_zero)
qed

lemma reflect_components_x:
  assumes "is_double a" and "is_double b" and "s = 1 \<or> s = - 1"
  shows "dotProduct (Vector (Fin (- a)) (Fin b)) (Vector (Fin s) (Fin 0))
           = fneg (dotProduct (Vector (Fin a) (Fin b)) (Vector (Fin s) (Fin 0)))"
    and "crossProduct (Vector (Fin (- a)) (Fin b)) (Vector (Fin s) (Fin 0))
           = crossProduct (Vector (Fin a) (Fin b)) (Vector (Fin s) (Fin 0))"
proof -
  have ra: "rnd a = Fin a"
    using assms(1) by (simp add: is_double_def)
  have rna: "rnd (- a) = Fin (- a)"
    using is_double_minus [OF assms(1)] by (simp add: is_double_def)
  show "dotProduct (Vector (Fin (- a)) (Fin b)) (Vector (Fin s) (Fin 0))
           = fneg (dotProduct (Vector (Fin a) (Fin b)) (Vector (Fin s) (Fin 0)))"
    using assms(3) by (auto simp add: dotProduct_def rnd_zero ra rna)
  show "crossProduct (Vector (Fin (- a)) (Fin b)) (Vector (Fin s) (Fin 0))
           = crossProduct (Vector (Fin a) (Fin b)) (Vector (Fin s) (Fin 0))"
    by (simp add: crossProduct_def fsub_def rnd_zero)
qed

text \<open>
  C3, as the spec states it, fails on binary64. \<^verbatim>\<open>reflect(normal)\<close> is
  \<^verbatim>\<open>this.subtract(this.projectOn(normal).scaleBy(2))\<close> by its definition, but that does
  not always flip the component along the normal: with the unit normal \<open>(1, 0)\<close> and
  \<open>v = (2^1023, 1)\<close> the doubling in \<^verbatim>\<open>scaleBy(2)\<close> overflows and the reflection is
  \<open>(-Infinity, 1)\<close>, not \<open>(-2^1023, 1)\<close>.
\<close>

theorem reflect_flip_counterexample:
  "is_double (2 ^ 1023) \<and>
   length' (Vector (Fin 1) (Fin 0)) = Fin 1 \<and>
   reflect (Vector (Fin (2 ^ 1023)) (Fin 1)) (Vector (Fin 1) (Fin 0)) = Vector NInf (Fin 1) \<and>
   reflect (Vector (Fin (2 ^ 1023)) (Fin 1)) (Vector (Fin 1) (Fin 0))
     \<noteq> Vector (Fin (- (2 ^ 1023))) (Fin 1) \<and>
   dotProduct (reflect (Vector (Fin (2 ^ 1023)) (Fin 1)) (Vector (Fin 1) (Fin 0)))
       (Vector (Fin 1) (Fin 0))
     \<noteq> fneg (dotProduct (Vector (Fin (2 ^ 1023)) (Fin 1)) (Vector (Fin 1) (Fin 0)))"
proof -
  define D :: rat where "D = 2 ^ 1023"
  have "is_double (of_int (2 ^ 52) * 2 powi 971)" by (rule is_double_dyadic) simp_all
  then have d: "is_double D" by (simp add: D_def)
  have rD: "rnd D = Fin D" using d by (simp add: is_double_def)
  have "D * 2 = 2 powi 1024" by (simp add: D_def)
  then have r2D: "rnd (D * 2) = PInf"
    using rnd_power2_overflow [of 1024] by simp
  have len: "length' (Vector (Fin 1) (Fin 0)) = Fin 1"
    by (simp add: length'_def sqrt_rnd_small)
  have refl: "reflect (Vector (Fin D) (Fin 1)) (Vector (Fin 1) (Fin 0)) = Vector NInf (Fin 1)"
    by (simp add: reflect_def projectOn_def dotProduct_def length'_def scaleBy_def subtract_def
        fsub_def Let_def rnd_zero rnd_small rD r2D sqrt_rnd_small)
  have dot: "dotProduct (Vector NInf (Fin 1)) (Vector (Fin 1) (Fin 0)) = NInf"
    by (simp add: dotProduct_def rnd_zero)
  have dot': "dotProduct (Vector (Fin D) (Fin 1)) (Vector (Fin 1) (Fin 0)) = Fin D"
    by (simp add: dotProduct_def rnd_zero rD)
  show ?thesis
    unfolding D_def [symmetric] refl dot dot'
    using d len by simp
qed

text \<open>
  C3, amended. Let \<open>v = (a, b)\<close> be a vector of finite numbers and \<open>n = (c, d)\<close> a
  normal of finite numbers with \<open>c * c + d * d\<close> exactly 1, such that the component of
  \<open>v\<close> along \<open>n\<close>, \<open>a * c + b * d\<close>, is below \<open>2^1023\<close> in magnitude. Then
  \<^verbatim>\<open>v.reflect(n)\<close> is \<^verbatim>\<open>v.subtract(v.projectOn(n).scaleBy(2))\<close> and equals
  \<open>v - 2 (v . n) n\<close> without any rounding: its \<^verbatim>\<open>dotProduct\<close> with \<open>n\<close> is that of \<open>v\<close>
  negated and its \<^verbatim>\<open>crossProduct\<close> with \<open>n\<close> is that of \<open>v\<close>, so only the component
  along \<open>n\<close> changes sign. In particular \<^verbatim>\<open>Vector(1,-1).reflect(Vector(0,1))\<close> is
  \<^verbatim>\<open>Vector(1,1)\<close>.
\<close>

theorem reflect_flips_along_normal:
  assumes "is_double a" and "is_double b" and "is_double c" and "is_double d"
    and "c * c + d * d = 1" and "\<bar>a * c + b * d\<bar> < 2 ^ 1023"
  shows "reflect (Vector (Fin a) (Fin b)) (Vector (Fin c) (Fin d))
           = subtract (Vector (Fin a) (Fin b))
               (scaleBy (projectOn (Vector (Fin a) (Fin b)) (Vector (Fin c) (Fin d))) (Fin 2)) \<and>
         reflect (Vector (Fin a) (Fin b)) (Vector (Fin c) (Fin d))
           = Vector (Fin (a - 2 * (a * c + b * d) * c)) (Fin (b - 2 * (a * c + b * d) * d)) \<and>
         dotProduct (reflect (Vector (Fin a) (Fin b)) (Vector (Fin c) (Fin d)))
             (Vector (Fin c) (Fin d))
           = fneg (dotProduct (Vector (Fin a) (Fin b)) (Vector (Fin c) (Fin d))) \<and>
         crossProduct (reflect (Vector (Fin a) (Fin b)) (Vector (Fin c) (Fin d)))
             (Vector (Fin c) (Fin d))
           = crossProduct (Vector (Fin a) (Fin b)) (Vector (Fin c) (Fin d)) \<and>
         reflect (Vector (Fin 1) (Fin (- 1))) (Vector (Fin 0) (Fin 1)) = Vector (Fin 1) (Fin 1)"
proof -
  have formula: "reflect (Vector (Fin a) (Fin b)) (Vector (Fin c) (Fin d))
      = subtract (Vector (Fin a) (Fin b))
          (scaleBy (projectOn (Vector (Fin a) (Fin b)) (Vector (Fin c) (Fin d))) (Fin 2))"
    by (simp only: reflect_def)
  have one: "is_double 1" and minus_one: "is_double (- 1)"
    using is_double_of_int [of 1] is_double_of_int [of "- 1"] by simp_all
  have "reflect (Vector (Fin 1) (Fin (- 1))) (Vector (Fin 0) (Fin 1))
      = Vector (Fin 1) (Fin (- (- 1)))"
    by (rule reflect_axis_y [OF one minus_one]) simp_all
  then have example:
    "reflect (Vector (Fin 1) (Fin (- 1))) (Vector (Fin 0) (Fin 1)) = Vector (Fin 1) (Fin 1)"
    by simp
  consider (y) "c = 0" "d = 1 \<or> d = - 1" | (x) "d = 0" "c = 1 \<or> c = - 1"
    using unit_double_axis [OF assms(3,4,5)] by blast
  then have "reflect (Vector (Fin a) (Fin b)) (Vector (Fin c) (Fin d))
        = Vector (Fin (a - 2 * (a * c + b * d) * c)) (Fin (b - 2 * (a * c + b * d) * d)) \<and>
      dotProduct (reflect (Vector (Fin a) (Fin b)) (Vector (Fin c) (Fin d)))
          (Vector (Fin c) (Fin d))
        = fneg (dotProduct (Vector (Fin a) (Fin b)) (Vector (Fin c) (Fin d))) \<and>
      crossProduct (reflect (Vector (Fin a) (Fin b)) (Vector (Fin c) (Fin d)))
          (Vector (Fin c) (Fin d))
        = crossProduct (Vector (Fin a) (Fin b)) (Vector (Fin c) (Fin d))"
  proof cases
    case y
    from assms(6) y have small: "\<bar>b\<bar> < 2 ^ 1023" by auto
    have r: "reflect (Vector (Fin a) (Fin b)) (Vector (Fin 0) (Fin d))
        = Vector (Fin a) (Fin (- b))"
      using assms(1,2) small y(2) by (rule reflect_axis_y)
    have v: "Vector (Fin (a - 2 * (a * c + b * d) * c)) (Fin (b - 2 * (a * c + b * d) * d))
        = Vector (Fin a) (Fin (- b))"
      using y by auto
    show ?thesis
      unfolding v unfolding y(1) r
      using reflect_components_y [OF assms(1,2) y(2)] by simp
  next
    case x
    from assms(6) x have small: "\<bar>a\<bar> < 2 ^ 1023" by auto
    have r: "reflect (Vector (Fin a) (Fin b)) (Vector (Fin c) (Fin 0))
        = Vector (Fin (- a)) (Fin b)"
      using assms(1,2) small x(2) by (rule reflect_axis_x)
    have v: "Vector (Fin (a - 2 * (a * c + b * d) * c)) (Fin (b - 2 * (a * c + b * d) * d))
        = Vector (Fin (- a)) (Fin b)"
      using x by auto
    show ?thesis
      unfolding v unfolding x(1) r
      using reflect_components_x [OF assms(1,2) x(2)] by simp
  qed
  with formula example show ?thesis by blast
qed

theorem reflect_flips_along_normal_witness:
  "is_double 1 \<and> is_double (- 1) \<and> is_double 0 \<and> (0 :: rat) * 0 + 1 * 1 = 1 \<and>
   \<bar>(1 :: rat) * 0 + (- 1) * 1\<bar> < 2 ^ 1023 \<and>
   reflect (Vector (Fin 1) (Fin (- 1))) (Vector (Fin 0) (Fin 1)) = Vector (Fin 1) (Fin 1) \<and>
   dotProduct (Vector (Fin 1) (Fin 1)) (Vector (Fin 0) (Fin 1))
     = fneg (dotProduct (Vector (Fin 1) (Fin (- 1))) (Vector (Fin 0) (Fin 1))) \<and>
   crossProduct (Vector (Fin 1) (Fin 1)) (Vector (Fin 0) (Fin 1))
     = crossProduct (Vector (Fin 1) (Fin (- 1))) (Vector (Fin 0) (Fin 1))"
proof -
  have a: "is_double 1" using is_double_of_int [of 1] by simp
  have b: "is_double (- 1)" using is_double_of_int [of "- 1"] by simp
  have unit: "(0 :: rat) * 0 + 1 * 1 = 1" by simp
  have small: "\<bar>(1 :: rat) * 0 + (- 1) * 1\<bar> < 2 ^ 1023" by simp
  note flip = reflect_flips_along_normal [OF a b is_double_zero a unit small]
  have r: "reflect (Vector (Fin 1) (Fin (- 1))) (Vector (Fin 0) (Fin 1)) = Vector (Fin 1) (Fin 1)"
    using flip by blast
  have "dotProduct (reflect (Vector (Fin 1) (Fin (- 1))) (Vector (Fin 0) (Fin 1)))
        (Vector (Fin 0) (Fin 1))
      = fneg (dotProduct (Vector (Fin 1) (Fin (- 1))) (Vector (Fin 0) (Fin 1)))"
    using flip by blast
  then have along: "dotProduct (Vector (Fin 1) (Fin 1)) (Vector (Fin 0) (Fin 1))
      = fneg (dotProduct (Vector (Fin 1) (Fin (- 1))) (Vector (Fin 0) (Fin 1)))"
    by (simp only: r)
  have "crossProduct (reflect (Vector (Fin 1) (Fin (- 1))) (Vector (Fin 0) (Fin 1)))
        (Vector (Fin 0) (Fin 1))
      = crossProduct (Vector (Fin 1) (Fin (- 1))) (Vector (Fin 0) (Fin 1))"
    using flip by blast
  then have across: "crossProduct (Vector (Fin 1) (Fin 1)) (Vector (Fin 0) (Fin 1))
      = crossProduct (Vector (Fin 1) (Fin (- 1))) (Vector (Fin 0) (Fin 1))"
    by (simp only: r)
  from a b is_double_zero unit small r along across show ?thesis
    by blast
qed

text \<open>
  The normal decides which component flips: off \<open>(1, 0)\<close> the same vector \<open>(1, -1)\<close>
  comes back as \<open>(-1, -1)\<close>.
\<close>

lemma mirror_x:
  "reflect (Vector (Fin 1) (Fin (- 1))) (Vector (Fin 1) (Fin 0)) = Vector (Fin (- 1)) (Fin (- 1))"
proof -
  have a: "is_double 1" using is_double_of_int [of 1] by simp
  have b: "is_double (- 1)" using is_double_of_int [of "- 1"] by simp
  show ?thesis by (rule reflect_axis_x [OF a b]) simp_all
qed

subsection \<open>Normalisation\<close>

lemma normalize_component_finite:
  assumes "is_double a" and "a \<noteq> 0 \<Longrightarrow> \<bar>a\<bar> < 2 * l" and "0 < l" and "rnd (1 / l) = Fin r"
  shows "\<exists>c. rnd (a * r) = Fin c"
proof (cases "a = 0")
  case True
  then show ?thesis by (simp add: rnd_def)
next
  case False
  have inv: "0 < 1 / l" using assms(3) by simp
  have r0: "0 \<le> r" using inv assms(4) by (rule rnd_nonneg)
  have r1: "r \<le> 2 * (1 / l) + 1 / 2 ^ 1075" using inv assms(4) by (rule rnd_upper)
  have a1: "\<bar>a\<bar> < 2 * l" using False by (rule assms(2))
  have a2: "\<bar>a\<bar> < 2 ^ 1024" using assms(1) by (rule is_double_lt_max)
  have "\<bar>a * r\<bar> = \<bar>a\<bar> * r" using r0 by (simp add: abs_mult)
  also have "\<dots> \<le> \<bar>a\<bar> * (2 * (1 / l) + 1 / 2 ^ 1075)"
    using r1 by (intro mult_left_mono) auto
  also have "\<dots> = \<bar>a\<bar> / l * 2 + \<bar>a\<bar> / 2 ^ 1075"
    by (simp add: algebra_simps)
  also have "\<dots> < 2 * 2 + 2 ^ 1024 / 2 ^ 1075"
  proof -
    have "\<bar>a\<bar> / l < 2" using a1 assms(3) by (simp add: field_simps)
    then have "\<bar>a\<bar> / l * 2 < 2 * 2" by (intro mult_strict_right_mono) auto
    moreover have "\<bar>a\<bar> / 2 ^ 1075 < 2 ^ 1024 / 2 ^ 1075"
      using a2 by (intro divide_strict_right_mono) auto
    ultimately show ?thesis by (rule add_strict_mono)
  qed
  also have "\<dots> < (2::rat) ^ 1023" by simp
  finally show ?thesis by (rule rnd_finite_small)
qed

lemma normalize_finite:
  assumes "is_double a" and "is_double b"
    and "fdiv (Fin 1) (length' (Vector (Fin a) (Fin b))) = Fin r"
  shows "\<exists>c d. normalize' (Vector (Fin a) (Fin b)) = Vector (Fin c) (Fin d)"
proof -
  consider "hypot (Fin a) (Fin b) = PInf"
    | l where "hypot (Fin a) (Fin b) = Fin l" "0 \<le> l"
    using hypot_finite_cases [of a b] by blast
  then show ?thesis
  proof cases
    case 1
    then have "r = 0" using assms(3) by (simp add: length'_def)
    then show ?thesis
      using assms(3) by (simp add: normalize'_def scaleBy_def rnd_zero)
  next
    case 2
    have "l \<noteq> 0"
      using assms(3) 2(1) by (auto simp add: length'_def)
    then have l: "0 < l" using 2(2) by simp
    have r: "rnd (1 / l) = Fin r"
      using assms(3) 2(1) \<open>l \<noteq> 0\<close> by (simp add: length'_def)
    have "hypot (Fin b) (Fin a) = Fin l"
      using 2(1) by (simp only: hypot_commute [of "Fin b"])
    then have "b \<noteq> 0 \<Longrightarrow> \<bar>b\<bar> < 2 * l"
      using assms(2) by (intro hypot_lower)
    then obtain d where d: "rnd (b * r) = Fin d"
      using normalize_component_finite [OF assms(2) _ l r] by blast
    have "a \<noteq> 0 \<Longrightarrow> \<bar>a\<bar> < 2 * l"
      using assms(1) 2(1) by (intro hypot_lower)
    then obtain c where c: "rnd (a * r) = Fin c"
      using normalize_component_finite [OF assms(1) _ l r] by blast
    show ?thesis
      using assms(3) c d by (simp add: normalize'_def scaleBy_def)
  qed
qed

lemma normalize_rounding:
  "length' (Vector (Fin 49) (Fin 0)) = Fin 49 \<and>
   normalize' (Vector (Fin 49) (Fin 0)) = Vector (Fin (9007199254740991 / 2 ^ 53)) (Fin 0) \<and>
   length' (normalize' (Vector (Fin 49) (Fin 0))) = Fin (9007199254740991 / 2 ^ 53)"
proof -
  have d: "is_double 49" using is_double_of_int [of 49] by simp
  have len: "hypot (Fin 49) (Fin 0) = Fin 49"
    using hypot_axis_x [OF d] by simp
  have inv: "fdiv (Fin 1) (Fin 49) = Fin (5882252574524729 / 2 ^ 58)"
    unfolding fdiv.simps using rnd_forty_ninth by simp
  have "fmul (Fin 49) (Fin (5882252574524729 / 2 ^ 58)) = Fin (9007199254740991 / 2 ^ 53)"
    unfolding fmul.simps by (rule rnd_forty_nine_times)
  moreover have "fmul (Fin 0) (Fin (5882252574524729 / 2 ^ 58)) = Fin 0"
    by (simp add: rnd_zero)
  ultimately have n: "normalize' (Vector (Fin 49) (Fin 0))
      = Vector (Fin (9007199254740991 / 2 ^ 53)) (Fin 0)"
    unfolding normalize'_def length'_def scaleBy_def vector.sel len inv by (simp only:)
  have "is_double (of_int 9007199254740991 * 2 powi (- 53))"
    by (rule is_double_dyadic) simp_all
  then have "is_double (9007199254740991 / 2 ^ 53)"
    by (simp add: power_int_minus_divide)
  then have "hypot (Fin (9007199254740991 / 2 ^ 53)) (Fin 0) = Fin \<bar>9007199254740991 / 2 ^ 53\<bar>"
    by (rule hypot_axis_x)
  then have "length' (Vector (Fin (9007199254740991 / 2 ^ 53)) (Fin 0)) = Fin (9007199254740991 / 2 ^ 53)"
    unfolding length'_def vector.sel by simp
  with n len show ?thesis
    unfolding length'_def [of "Vector (Fin 49) (Fin 0)"] vector.sel by (simp only:)
qed

lemma normalize_overflow:
  "is_double (1 / 2 ^ 1074) \<and>
   length' (Vector (Fin (1 / 2 ^ 1074)) (Fin 0)) \<noteq> Fin 0 \<and>
   normalize' (Vector (Fin (1 / 2 ^ 1074)) (Fin 0)) = Vector PInf NaN"
proof -
  define M :: rat where "M = 1 / 2 ^ 1074"
  have "is_double (of_int 1 * 2 powi (- 1074))" by (rule is_double_dyadic) simp_all
  then have d: "is_double M" by (simp add: M_def power_int_minus_divide)
  have pos: "0 < M" by (simp add: M_def)
  have len: "hypot (Fin M) (Fin 0) = Fin M"
    using hypot_axis_x [OF d] pos by simp
  have "1 / M = 2 powi 1074" by (simp add: M_def)
  then have inv: "rnd (1 / M) = PInf"
    using rnd_power2_overflow [of 1074] by simp
  have "normalize' (Vector (Fin M) (Fin 0)) = Vector PInf NaN"
    using pos by (simp add: normalize'_def length'_def scaleBy_def len inv del: hypot.simps)
  then show ?thesis
    unfolding M_def [symmetric]
    using d pos by (simp add: length'_def len del: hypot.simps)
qed

text \<open>
  C4, as the spec states it, fails on binary64, in both halves. The vector \<open>(49, 0)\<close>
  has length 49, and \<open>49 * (1 / 49)\<close> rounds to \<open>1 - 2^-53\<close>: \<^verbatim>\<open>normalize()\<close> returns
  \<open>(0.9999999999999999, 0)\<close>, whose length is not 1. The smallest positive number
  \<open>2^-1074\<close> gives a vector \<open>(2^-1074, 0)\<close> of non-zero length whose reciprocal
  overflows: \<^verbatim>\<open>normalize()\<close> returns \<open>(Infinity, NaN)\<close>.
\<close>

theorem normalize_counterexample:
  "length' (Vector (Fin 49) (Fin 0)) = Fin 49 \<and>
   normalize' (Vector (Fin 49) (Fin 0)) = Vector (Fin (9007199254740991 / 2 ^ 53)) (Fin 0) \<and>
   length' (normalize' (Vector (Fin 49) (Fin 0))) \<noteq> Fin 1 \<and>
   length' (Vector (Fin (1 / 2 ^ 1074)) (Fin 0)) \<noteq> Fin 0 \<and>
   normalize' (Vector (Fin (1 / 2 ^ 1074)) (Fin 0)) = Vector PInf NaN"
proof -
  from normalize_rounding
  have l: "length' (normalize' (Vector (Fin 49) (Fin 0))) = Fin (9007199254740991 / 2 ^ 53)"
    by blast
  have "length' (normalize' (Vector (Fin 49) (Fin 0))) \<noteq> Fin 1"
    unfolding l by simp
  with normalize_rounding normalize_overflow show ?thesis
    by blast
qed

text \<open>
  C4, amended. \<^verbatim>\<open>normalize()\<close> is \<^verbatim>\<open>scaleBy(1 / length())\<close> with no guard: for the
  zero vector the length is 0, its reciprocal is \<open>Infinity\<close> and the result is
  \<open>(NaN, NaN)\<close>. For a vector of finite numbers whose \<open>1 / length()\<close> is finite, the
  length is not 0 and both components of the result are finite.
\<close>

theorem normalize_unguarded:
  assumes "is_double a" and "is_double b"
    and "fdiv (Fin 1) (length' (Vector (Fin a) (Fin b))) = Fin r"
  shows "normalize' v = scaleBy v (fdiv (Fin 1) (length' v)) \<and>
         normalize' (Vector (Fin 0) (Fin 0)) = Vector NaN NaN \<and>
         length' (Vector (Fin a) (Fin b)) \<noteq> Fin 0 \<and>
         (\<exists>c d. normalize' (Vector (Fin a) (Fin b)) = Vector (Fin c) (Fin d))"
proof -
  have "normalize' (Vector (Fin 0) (Fin 0)) = Vector NaN NaN"
    by (simp add: normalize'_def length'_def scaleBy_def)
  moreover have "length' (Vector (Fin a) (Fin b)) \<noteq> Fin 0"
    using assms(3) by auto
  moreover have "\<exists>c d. normalize' (Vector (Fin a) (Fin b)) = Vector (Fin c) (Fin d)"
    using assms by (rule normalize_finite)
  ultimately show ?thesis by (simp add: normalize'_def)
qed

theorem normalize_unguarded_witness:
  "is_double 3 \<and> is_double 4 \<and>
   fdiv (Fin 1) (length' (Vector (Fin 3) (Fin 4))) = Fin (7205759403792794 / 2 ^ 55) \<and>
   length' (Vector (Fin 3) (Fin 4)) \<noteq> Fin 0 \<and>
   (\<exists>c d. normalize' (Vector (Fin 3) (Fin 4)) = Vector (Fin c) (Fin d))"
proof -
  have a: "is_double 3" using is_double_of_int [of 3] by simp
  have b: "is_double 4" using is_double_of_int [of 4] by simp
  have five: "is_double 5" using is_double_of_int [of 5] by simp
  have "hypot (Fin 3) (Fin 4) = sqrt_rnd (5 * 5)" by simp
  also have "\<dots> = Fin 5" using five by (intro sqrt_rnd_square) simp_all
  finally have "fdiv (Fin 1) (length' (Vector (Fin 3) (Fin 4))) = rnd (1 / 5)"
    by (simp add: length'_def del: hypot.simps)
  then have r: "fdiv (Fin 1) (length' (Vector (Fin 3) (Fin 4))) = Fin (7205759403792794 / 2 ^ 55)"
    by (simp only: rnd_fifth)
  from normalize_unguarded [OF a b r] a b r show ?thesis
    by blast
qed

section \<open>The reducer of scene.js\<close>

lemmas action_names = CONTAINER_SIZE_CHANGE_def KEY_DOWN_def KEY_UP_def TICK_def

lemma HANDLER_TICK_eq: "HANDLER TICK = Some (Own HANDLER_TICK)"
  by (simp add: HANDLER_def action_names)

lemma HANDLER_KEY_UP_eq: "HANDLER KEY_UP = Some (Own HANDLER_KEY_UP)"
  by (simp add: HANDLER_def action_names)

lemma HANDLER_CONTAINER_SIZE_CHANGE_eq:
  "HANDLER CONTAINER_SIZE_CHANGE = Some (Own HANDLER_CONTAINER_SIZE_CHANGE)"
  by (simp add: HANDLER_def action_names)

lemma HANDLER_other:
  assumes "t \<notin> {CONTAINER_SIZE_CHANGE, KEY_DOWN, KEY_UP, TICK}"
  shows "HANDLER t = (if t \<in> set Object_prototype then Some (Inherited t) else None)"
  using assms by (simp add: HANDLER_def)

lemma inherited_not_handled:
  "t \<in> set Object_prototype \<Longrightarrow> t \<notin> {CONTAINER_SIZE_CHANGE, KEY_DOWN, KEY_UP, TICK}"
  by (auto simp add: Object_prototype_def action_names)

text \<open>
  CONTAINER_SIZE_CHANGE with the payloads the model has beside a size: without a
  payload the handler throws; a key code is stored as the container size, and the
  projectors scale by \<open>NaN\<close>.
\<close>

lemma container_size_change_payloads:
  "reducer core w s (Action CONTAINER_SIZE_CHANGE Undefined) = (Inl (Thrown TypeError), w)"
  "reducer core w s (Action CONTAINER_SIZE_CHANGE (Key k))
     = (Inr (s\<lparr>projectDistance := (\<lambda>distance. fmul distance NaN),
              projectVector := (\<lambda>vector. scaleBy vector NaN),
              containerSize := KeyCode k\<rparr>), w)"
  by (simp_all add: reducer_def HANDLER_CONTAINER_SIZE_CHANGE_eq HANDLER_CONTAINER_SIZE_CHANGE_def
      getProjectors_def spread_def width_of_def height_of_def Let_def)

lemma demo_not_paused: "\<not> truthy (stopTime demo_state)"
  by (simp add: truthy_def demo_state_def)

text \<open>
  C7. While the game is paused, that is while \<^verbatim>\<open>state.stopTime\<close> passes the test
  \<^verbatim>\<open>if (state.stopTime)\<close>, a TICK action returns the state it was given: no field
  changes, and nothing is written to the storage.
\<close>

theorem tick_paused_unchanged:
  "truthy (stopTime s) \<Longrightarrow> reducer core w s (Action TICK p) = (Inr s, w)"
  by (simp add: reducer_def HANDLER_TICK_eq HANDLER_TICK_def)

theorem tick_paused_unchanged_witness:
  "truthy (stopTime (demo_state\<lparr>stopTime := Some 1010\<rparr>)) \<and>
   reducer (demo_core clearing_step) demo_world (demo_state\<lparr>stopTime := Some 1010\<rparr>)
       (Action TICK Undefined)
     = (Inr (demo_state\<lparr>stopTime := Some 1010\<rparr>), demo_world)"
proof -
  have paused: "truthy (stopTime (demo_state\<lparr>stopTime := Some 1010\<rparr>))"
    by (simp add: truthy_def)
  from tick_paused_unchanged [OF paused] paused show ?thesis
    by blast
qed

text \<open>
  C9, as the spec states it, fails for the names \<^verbatim>\<open>HANDLER\<close> inherits. The type
  \<^verbatim>\<open>valueOf\<close> is none of the four action types, yet \<^verbatim>\<open>HANDLER['valueOf']\<close> is a
  function, and calling it throws a TypeError; for \<^verbatim>\<open>toString\<close> the reducer returns
  the string \<^verbatim>\<open>[object Undefined]\<close> in place of a state.
\<close>

theorem reducer_inherited_counterexample:
  "''valueOf'' \<notin> {CONTAINER_SIZE_CHANGE, KEY_DOWN, KEY_UP, TICK} \<and>
   reducer (demo_core clearing_step) demo_world demo_state (Action ''valueOf'' Undefined)
     = (Inl (Thrown TypeError), demo_world) \<and>
   ''toString'' \<notin> {CONTAINER_SIZE_CHANGE, KEY_DOWN, KEY_UP, TICK} \<and>
   reducer (demo_core clearing_step) demo_world demo_state (Action ''toString'' Undefined)
     = (Inl (Returned ''[object Undefined]''), demo_world)"
  by (simp add: reducer_def HANDLER_def Object_prototype_def call_inherited_def action_names)

text \<open>
  Every inherited name but \<^verbatim>\<open>constructor\<close> makes the reducer fail in one of these two
  ways, whatever the state and the payload.
\<close>

lemma reducer_inherited_fails:
  assumes "t \<in> set Object_prototype" and "t \<noteq> ''constructor''"
  shows "reducer core w s (Action t p)
           = (if t = ''toString'' then (Inl (Returned ''[object Undefined]''), w)
              else (Inl (Thrown TypeError), w))"
  using assms inherited_not_handled [OF assms(1)]
  by (simp add: reducer_def HANDLER_other call_inherited_def)

text \<open>
  C9, amended. An action whose type is none of CONTAINER_SIZE_CHANGE, KEY_DOWN, KEY_UP
  and TICK, and none of the names inherited from \<^verbatim>\<open>Object.prototype\<close> other than
  \<^verbatim>\<open>constructor\<close>, leaves the state as it was: the reducer returns the state it was
  given, whatever the payload. Under \<^verbatim>\<open>constructor\<close> the table holds \<^verbatim>\<open>Object\<close>, which
  returns the state too.
\<close>

theorem reducer_unknown_type:
  assumes "t \<notin> {CONTAINER_SIZE_CHANGE, KEY_DOWN, KEY_UP, TICK}"
    and "t \<notin> set Object_prototype - {''constructor''}"
  shows "reducer core w s (Action t p) = (Inr s, w)"
  using assms by (simp add: reducer_def HANDLER_other call_inherited_def)

theorem reducer_unknown_type_witness:
  "''RESET'' \<notin> {CONTAINER_SIZE_CHANGE, KEY_DOWN, KEY_UP, TICK} \<and>
   ''RESET'' \<notin> set Object_prototype - {''constructor''} \<and>
   reducer (demo_core clearing_step) demo_world demo_state (Action ''RESET'' (Key 32))
     = (Inr demo_state, demo_world)"
proof -
  have other: "''RESET'' \<notin> {CONTAINER_SIZE_CHANGE, KEY_DOWN, KEY_UP, TICK}"
    by (simp add: action_names)
  have own: "''RESET'' \<notin> set Object_prototype - {''constructor''}"
    by (simp add: Object_prototype_def)
  from reducer_unknown_type [OF other own] other own show ?thesis
    by blast
qed

text \<open>
  C10. Releasing the stop key (code 32) while the game is paused at time \<open>t\<close> resumes
  it: the pause mark and the movement are cleared, and \<open>time\<close> moves forward by the
  length of the pause, \<open>now - t\<close>; nothing else changes. The delta the next tick
  computes at a later time \<open>later\<close> is therefore the time since the resume plus what
  had passed before the pause, without the pause itself.
\<close>

theorem key_up_resumes:
  assumes "stopTime s = Some t" and "t \<noteq> 0"
  shows "reducer core w s (Action KEY_UP (Key STOP_KEY))
           = (Inr (s\<lparr>movement := None, stopTime := None, time := time s + (now w - t)\<rparr>), w)
         \<and> later - time (s\<lparr>movement := None, stopTime := None, time := time s + (now w - t)\<rparr>)
           = (later - now w) + (t - time s)"
  using assms by (simp add: reducer_def HANDLER_KEY_UP_eq HANDLER_KEY_UP_def truthy_def)

theorem key_up_resumes_witness:
  "stopTime (demo_state\<lparr>stopTime := Some 1010, movement := Some LEFT\<rparr>) = Some 1010 \<and>
   (1010 :: int) \<noteq> 0 \<and>
   reducer (demo_core clearing_step) demo_world
       (demo_state\<lparr>stopTime := Some 1010, movement := Some LEFT\<rparr>) (Action KEY_UP (Key 32))
     = (Inr (demo_state\<lparr>time := 1006\<rparr>), demo_world)"
proof -
  have paused: "stopTime (demo_state\<lparr>stopTime := Some 1010, movement := Some LEFT\<rparr>) = Some 1010"
    by simp
  have resumed:
    "(demo_state\<lparr>stopTime := Some 1010, movement := Some LEFT\<rparr>)
        \<lparr>movement := None, stopTime := None,
         time := time (demo_state\<lparr>stopTime := Some 1010, movement := Some LEFT\<rparr>)
                   + (now demo_world - 1010)\<rparr>
      = demo_state\<lparr>time := 1006\<rparr>"
    by (simp add: demo_state_def demo_world_def)
  from key_up_resumes [OF paused, where w = demo_world and core = "demo_core clearing_step"]
    paused resumed
  show ?thesis
    by (simp add: STOP_KEY_def)
qed

text \<open>
  C5. When the game is running and the simulation step leaves fewer than one life,
  the TICK handler restarts the level: the game is the loader's result for the
  descriptor at the current level index, the time is the clock's, and the level index
  and every other field are as before.
\<close>

theorem tick_lives_exhausted:
  assumes "\<not> truthy (stopTime s)"
    and "lives (getNewGameState core (game s) (movement s) (now w - time s)) < 1"
  shows "reducer core w s (Action TICK p)
           = (Inr (s\<lparr>time := now w,
                    game := getGameStateFromLevel core (at_index (LEVELS core) (level s))\<rparr>), w)
         \<and> level (s\<lparr>time := now w,
                    game := getGameStateFromLevel core (at_index (LEVELS core) (level s))\<rparr>)
           = level s"
  using assms by (simp add: reducer_def HANDLER_TICK_eq HANDLER_TICK_def Let_def)

theorem tick_lives_exhausted_witness:
  "\<not> truthy (stopTime demo_state) \<and>
   lives (getNewGameState (demo_core losing_step) (game demo_state) (movement demo_state)
            (now demo_world - time demo_state)) < 1 \<and>
   reducer (demo_core losing_step) demo_world demo_state (Action TICK Undefined)
     = (Inr (demo_state\<lparr>time := 1016, game := demo_level 1\<rparr>), demo_world)"
proof -
  have lost:
    "lives (getNewGameState (demo_core losing_step) (game demo_state) (movement demo_state)
              (now demo_world - time demo_state)) < 1"
    by (simp add: demo_core_def losing_step_def)
  have restart:
    "getGameStateFromLevel (demo_core losing_step)
        (at_index (LEVELS (demo_core losing_step)) (level demo_state)) = demo_level 1"
    by (simp add: demo_core_def demo_loader_def at_index_def demo_state_def)
  from tick_lives_exhausted [OF demo_not_paused lost, of Undefined] lost restart demo_not_paused
  show ?thesis
    by (simp add: demo_world_def)
qed

text \<open>
  C1. What the TICK handler does when the game is running and the simulation step
  leaves lives but no block: the level index moves to the next one unless it equals
  the number of levels, the new index is stored, and the game is the loader's result
  for the descriptor at the index the state had before, \<^verbatim>\<open>LEVELS[state.level]\<close>, not
  at the new index. In the instance the state comes back with level 1 and the game of
  level 0.
\<close>

theorem tick_level_cleared:
  assumes "\<not> truthy (stopTime s)"
    and "\<not> lives (getNewGameState core (game s) (movement s) (now w - time s)) < 1"
    and "blocks (getNewGameState core (game s) (movement s) (now w - time s)) = []"
  shows "reducer core w s (Action TICK p)
           = (Inr (spread
                (s\<lparr>time := now w,
                   level := (if level s = int (length (LEVELS core)) then level s else level s + 1),
                   game := getGameStateFromLevel core (at_index (LEVELS core) (level s))\<rparr>)
                (getProjectors (containerSize s)
                   (size' (getGameStateFromLevel core (at_index (LEVELS core) (level s)))))),
              w\<lparr>localStorage := (localStorage w)(''level'' \<mapsto>
                   ToString (if level s = int (length (LEVELS core)) then level s
                             else level s + 1))\<rparr>)"
  using assms by (simp add: reducer_def HANDLER_TICK_eq HANDLER_TICK_def Let_def)

theorem tick_level_cleared_witness:
  "\<not> truthy (stopTime demo_state) \<and>
   \<not> lives (getNewGameState (demo_core clearing_step) (game demo_state) (movement demo_state)
            (now demo_world - time demo_state)) < 1 \<and>
   blocks (getNewGameState (demo_core clearing_step) (game demo_state) (movement demo_state)
            (now demo_world - time demo_state)) = [] \<and>
   (\<exists>s' w'. reducer (demo_core clearing_step) demo_world demo_state (Action TICK Undefined)
               = (Inr s', w') \<and>
            level s' = 1 \<and>
            game s' = getGameStateFromLevel (demo_core clearing_step)
                        (at_index (LEVELS (demo_core clearing_step)) 0) \<and>
            game s' \<noteq> getGameStateFromLevel (demo_core clearing_step)
                        (at_index (LEVELS (demo_core clearing_step)) (level s')))"
proof -
  have alive:
    "\<not> lives (getNewGameState (demo_core clearing_step) (game demo_state) (movement demo_state)
              (now demo_world - time demo_state)) < 1"
    by (simp add: demo_core_def clearing_step_def demo_state_def demo_level_def)
  have cleared:
    "blocks (getNewGameState (demo_core clearing_step) (game demo_state) (movement demo_state)
              (now demo_world - time demo_state)) = []"
    by (simp add: demo_core_def clearing_step_def)
  have differ: "demo_level 1 \<noteq> demo_level 2"
    by (simp add: demo_level_def numeral_2_eq_2)
  from tick_level_cleared [OF demo_not_paused alive cleared, of Undefined]
    demo_not_paused alive cleared differ
  show ?thesis
    by (simp add: spread_def demo_core_def demo_loader_def at_index_def demo_state_def)
qed

text \<open>
  The same branch at the last level of the instance: the index 1 is not the number
  of levels, so it moves on to 2, where the table has no descriptor.
\<close>

lemma tick_level_cleared_at_last:
  "\<exists>s' w'. reducer (demo_core clearing_step) demo_world (demo_state\<lparr>level := 1\<rparr>)
             (Action TICK Undefined) = (Inr s', w') \<and>
          level s' = 2 \<and>
          at_index (LEVELS (demo_core clearing_step)) (level s') = None \<and>
          localStorage w' ''level'' = Some ''2''"
  by (simp add: reducer_def HANDLER_TICK_eq HANDLER_TICK_def Let_def truthy_def spread_def
      demo_core_def demo_state_def demo_level_def clearing_step_def at_index_def
      ToString_def digits.simps)

end
